(* ===== verification/Prelude.thy ===== *)
theory Prelude
  imports
    Main
    "HOL-Library.Word"
    "HOL-Library.Signed_Division"
    "HOL-Library.Multiset"
    "HOL-Library.Monad_Syntax"
begin

text \<open>
  Shared vocabulary of the development. Go's \<open>int\<close> is a 64-bit two's complement
  integer, named \<open>go_int\<close> here; the hash function of the hash table computes in it and
  its wrap-around matters. Keys of the AVL tree are Go \<open>int\<close> values that are only
  compared, never computed with, so the tree keeps them as HOL \<open>int\<close>.
  The theory also holds the list lemmas both containers share: insertion into and
  deletion from a strictly sorted list (the abstract behaviour of the tree) and the
  multiset of a list of lists after one of its lists is replaced (the bucket array of
  the hash table).
\<close>

type_synonym go_int = "64 word"

text \<open>
  A Go \<open>error\<close> made by \<open>fmt.Errorf\<close> carries only its message; a method
  returning \<open>(T, error)\<close> returns \<open>Inl msg\<close> for a non-nil error and \<open>Inr x\<close>
  for success.
\<close>

type_synonym go_error = string

named_theorems sorted_ins_del
  "splitting lemmas of ins_list and del_list on strictly sorted lists"

named_theorems bucket_simps
  "facts on a bucket array after one of its buckets is replaced"

named_theorems container_simps
  "behaviour of the operations of the linear containers on well-formed states"

subsection \<open>Strictly sorted lists\<close>

abbreviation strictly_sorted :: "'a::linorder list \<Rightarrow> bool" where
  "strictly_sorted xs \<equiv> sorted_wrt (<) xs"

lemma strictly_sorted_mid_iff:
  "strictly_sorted (xs @ a # ys) \<longleftrightarrow>
     strictly_sorted xs \<and> strictly_sorted ys \<and> (\<forall>x\<in>set xs. x < a) \<and> (\<forall>y\<in>set ys. a < y)"
  by (auto simp: sorted_wrt_append intro: order.strict_trans)

fun ins_list :: "'a::linorder \<Rightarrow> 'a list \<Rightarrow> 'a list" where
  "ins_list x [] = [x]"
| "ins_list x (y # ys) =
     (if x < y then x # y # ys else if x = y then y # ys else y # ins_list x ys)"

fun del_list :: "'a \<Rightarrow> 'a list \<Rightarrow> 'a list" where
  "del_list x [] = []"
| "del_list x (y # ys) = (if x = y then ys else y # del_list x ys)"

lemma set_ins_list [simp]: "set (ins_list x xs) = insert x (set xs)"
  by (induction xs) auto

lemma ins_list_greater: "\<forall>y \<in> set xs. y < x \<Longrightarrow> ins_list x xs = xs @ [x]"
  by (induction xs) auto

lemma strictly_sorted_ins_list:
  "strictly_sorted xs \<Longrightarrow> strictly_sorted (ins_list x xs)"
  by (induction xs) auto

lemma del_list_notin [simp]: "x \<notin> set xs \<Longrightarrow> del_list x xs = xs"
  by (induction xs) auto

lemma set_del_list:
  "strictly_sorted xs \<Longrightarrow> set (del_list x xs) = set xs - {x}"
  by (induction xs) auto

lemma strictly_sorted_del_list:
  "strictly_sorted xs \<Longrightarrow> strictly_sorted (del_list x xs)"
  by (induction xs) (auto simp: set_del_list)

lemma ins_list_before [sorted_ins_del]:
  "\<forall>y\<in>set xs. y < a \<Longrightarrow> x < a \<Longrightarrow> ins_list x (xs @ a # ys) = ins_list x xs @ a # ys"
  by (induction xs) auto

lemma ins_list_after [sorted_ins_del]:
  "\<forall>y\<in>set xs. y < a \<Longrightarrow> a \<le> x \<Longrightarrow> ins_list x (xs @ a # ys) = xs @ ins_list x (a # ys)"
  by (induction xs) auto

lemma del_list_before [sorted_ins_del]:
  assumes "\<forall>y\<in>set ys. a < y" and "(x::'a::linorder) < a"
  shows "del_list x (xs @ a # ys) = del_list x xs @ a # ys"
proof -
  from assms have "x \<notin> set (a # ys)" by auto
  then show ?thesis by (induction xs) auto
qed

lemma del_list_after [sorted_ins_del]:
  assumes "\<forall>y\<in>set xs. y < a" and "a \<le> (x::'a::linorder)"
  shows "del_list x (xs @ a # ys) = xs @ del_list x (a # ys)"
proof -
  from assms have "x \<notin> set xs" by auto
  then show ?thesis by (induction xs) auto
qed

subsection \<open>Insertion next to the first occurrence of a value\<close>

text \<open>
  The abstract behaviour of the linked lists' \<open>InsertBefore\<close> and \<open>InsertAfter\<close>:
  the value goes right before or after the first occurrence of the target, and nothing
  changes when the target is absent.
\<close>

fun ins_before :: "'a \<Rightarrow> 'a \<Rightarrow> 'a list \<Rightarrow> 'a list" where
  "ins_before t v [] = []"
| "ins_before t v (x # xs) = (if x = t then v # x # xs else x # ins_before t v xs)"

fun ins_after :: "'a \<Rightarrow> 'a \<Rightarrow> 'a list \<Rightarrow> 'a list" where
  "ins_after t v [] = []"
| "ins_after t v (x # xs) = (if x = t then x # v # xs else x # ins_after t v xs)"

lemma ins_before_absent [simp]: "t \<notin> set xs \<Longrightarrow> ins_before t v xs = xs"
  by (induction xs) auto

lemma ins_after_absent [simp]: "t \<notin> set xs \<Longrightarrow> ins_after t v xs = xs"
  by (induction xs) auto

lemma length_ins_before: "t \<in> set xs \<Longrightarrow> length (ins_before t v xs) = Suc (length xs)"
  by (induction xs) auto

lemma length_ins_after: "t \<in> set xs \<Longrightarrow> length (ins_after t v xs) = Suc (length xs)"
  by (induction xs) auto


subsection \<open>A list of lists with one list replaced\<close>

lemma concat_update_split:
  "i < length xss \<Longrightarrow>
   concat (xss[i := ys]) = concat (take i xss) @ ys @ concat (drop (Suc i) xss)"
  by (simp add: upd_conv_take_nth_drop)

lemma concat_nth_split:
  "i < length xss \<Longrightarrow>
   concat xss = concat (take i xss) @ xss ! i @ concat (drop (Suc i) xss)"
  by (metis concat_append concat.simps(2) id_take_nth_drop)

lemma mset_concat_update [bucket_simps]:
  "i < length xss \<Longrightarrow>
   mset (concat (xss[i := ys])) + mset (xss ! i) = mset (concat xss) + mset ys"
  by (simp add: concat_update_split concat_nth_split [of i xss])

lemma set_concat_update_other [bucket_simps]:
  "i < length xss \<Longrightarrow> x \<in> set (concat xss) \<Longrightarrow> x \<notin> set (xss ! i) \<Longrightarrow>
   x \<in> set (concat (xss[i := ys]))"
proof -
  assume i: "i < length xss" and x: "x \<in> set (concat xss)" "x \<notin> set (xss ! i)"
  from i have "set (concat xss) =
      set (concat (take i xss)) \<union> set (xss ! i) \<union> set (concat (drop (Suc i) xss))"
    by (subst concat_nth_split [OF i]) auto
  with i x show ?thesis by (auto simp: concat_update_split)
qed

lemma distinct_add_mset [bucket_simps]:
  "mset xs = add_mset a (mset ys) \<Longrightarrow> distinct ys \<Longrightarrow> a \<notin> set ys \<Longrightarrow> distinct xs"
  by (metis distinct.simps(2) mset.simps(2) mset_eq_imp_distinct_iff)

lemma distinct_del_mset [bucket_simps]:
  "mset ys = add_mset a (mset xs) \<Longrightarrow> distinct ys \<Longrightarrow> distinct xs"
  by (metis distinct.simps(2) mset.simps(2) mset_eq_imp_distinct_iff)

end
