(* ===== verification/AVL_Tree.thy ===== *)
theory AVL_Tree
  imports Prelude
begin

text \<open>
  The AVL tree of \<^verbatim>\<open>src/avl_tree.go\<close>. A Go \<open>*AVLNode\<close> is an owned pointer
  with no sharing and no cycles, so the node graph is the datatype \<open>avl_node\<close>:
  \<open>NilNode\<close> is the nil pointer and \<open>AVLNode Data Left Right height\<close> a node with its
  cached height field. A Go operation that mutates nodes in place and returns the new
  subtree root is a function from the old subtree to the new one. A nil-pointer
  dereference panics in Go; the operations that dereference a pointer they did not test
  return an option, \<open>None\<close> being the panic.
\<close>

section \<open>Model\<close>

datatype avl_node = NilNode | AVLNode int avl_node avl_node nat

record avl_tree =
  tree_name :: string
  root :: avl_node

definition NewAVLTree :: "string \<Rightarrow> avl_tree" where
  "NewAVLTree name = \<lparr>tree_name = name, root = NilNode\<rparr>"

fun height :: "avl_node \<Rightarrow> nat" where
  "height NilNode = 0"
| "height (AVLNode _ _ _ h) = h"

definition go_max :: "nat \<Rightarrow> nat \<Rightarrow> nat" where
  "go_max a b = (if a > b then a else b)"

fun balanceFactor :: "avl_node \<Rightarrow> int" where
  "balanceFactor NilNode = 0"
| "balanceFactor (AVLNode _ l r _) = int (height l) - int (height r)"

text \<open>
  \<open>rotateRight y\<close> reads \<open>y.Left.Right\<close>: it panics unless \<open>y\<close> and \<open>y.Left\<close> are
  nodes. The heights of \<open>y\<close> and then \<open>x\<close> are recomputed from their new children.
\<close>

fun rotateRight :: "avl_node \<Rightarrow> avl_node option" where
  "rotateRight (AVLNode yd (AVLNode xd xl T2 _) yr _) =
     (let y = AVLNode yd T2 yr (go_max (height T2) (height yr) + 1)
      in Some (AVLNode xd xl y (go_max (height xl) (height y) + 1)))"
| "rotateRight _ = None"

fun rotateLeft :: "avl_node \<Rightarrow> avl_node option" where
  "rotateLeft (AVLNode xd xl (AVLNode yd T2 yr _) _) =
     (let x = AVLNode xd xl T2 (go_max (height xl) (height T2) + 1)
      in Some (AVLNode yd x yr (go_max (height x) (height yr) + 1)))"
| "rotateLeft _ = None"

text \<open>
  The tail of \<open>insertHelper\<close> after the recursive call (lines 86--112): the node
  \<open>d l r\<close>, whose child has just been replaced, gets its height recomputed, and the four
  cases are tried in the source's order. A case reads \<open>node.Left.Data\<close> (or
  \<open>node.Right.Data\<close>) only once its balance test has passed, as Go's \<open>&&\<close> does; the
  read panics on a nil child. When the balance exceeds 1 the right-hand cases are false
  without reading anything, and conversely.
\<close>

definition insertRebalance :: "int \<Rightarrow> int \<Rightarrow> avl_node \<Rightarrow> avl_node \<Rightarrow> avl_node option" where
  "insertRebalance value d l r =
     (let node = AVLNode d l r (1 + go_max (height l) (height r));
          balance = balanceFactor node
      in if balance > 1 then
           (case l of
              NilNode \<Rightarrow> None
            | AVLNode ld _ _ _ \<Rightarrow>
                if value < ld then rotateRight node
                else if value > ld then
                  do { l' \<leftarrow> rotateLeft l;
                       rotateRight (AVLNode d l' r (1 + go_max (height l) (height r))) }
                else Some node)
         else if balance < -1 then
           (case r of
              NilNode \<Rightarrow> None
            | AVLNode rd _ _ _ \<Rightarrow>
                if value > rd then rotateLeft node
                else if value < rd then
                  do { r' \<leftarrow> rotateRight r;
                       rotateLeft (AVLNode d l r' (1 + go_max (height l) (height r))) }
                else Some node)
         else Some node)"

fun insertHelper :: "avl_node \<Rightarrow> int \<Rightarrow> avl_node option" where
  "insertHelper NilNode value = Some (AVLNode value NilNode NilNode 1)"
| "insertHelper (AVLNode d l r h) value =
     (if value < d then do { l' \<leftarrow> insertHelper l value; insertRebalance value d l' r }
      else if value > d then do { r' \<leftarrow> insertHelper r value; insertRebalance value d l r' }
      else Some (AVLNode d l r h))"

definition AVLTree_Insert :: "avl_tree \<Rightarrow> int \<Rightarrow> avl_tree option" where
  "AVLTree_Insert a value = map_option (\<lambda>r. a\<lparr>root := r\<rparr>) (insertHelper (root a) value)"

text \<open>\<open>minValueNode\<close> follows \<open>Left\<close> links; it panics when called on nil.\<close>

fun minValueNode :: "avl_node \<Rightarrow> avl_node option" where
  "minValueNode NilNode = None"
| "minValueNode (AVLNode d NilNode r h) = Some (AVLNode d NilNode r h)"
| "minValueNode (AVLNode _ l _ _) = minValueNode l"

text \<open>
  The tail of \<open>deleteHelper\<close> (lines 157--186): a nil node is returned as it is;
  otherwise the height is recomputed and the four cases are chosen by the balance of
  the node and of its heavier child, \<open>balanceFactor\<close> being 0 on nil.
\<close>

fun deleteRebalance :: "avl_node \<Rightarrow> avl_node option" where
  "deleteRebalance NilNode = Some NilNode"
| "deleteRebalance (AVLNode d l r _) =
     (let hn = 1 + go_max (height l) (height r);
          node = AVLNode d l r hn;
          balance = balanceFactor node
      in if balance > 1 \<and> balanceFactor l \<ge> 0 then rotateRight node
         else if balance > 1 \<and> balanceFactor l < 0 then
           do { l' \<leftarrow> rotateLeft l; rotateRight (AVLNode d l' r hn) }
         else if balance < -1 \<and> balanceFactor r \<le> 0 then rotateLeft node
         else if balance < -1 \<and> balanceFactor r > 0 then
           do { r' \<leftarrow> rotateRight r; rotateLeft (AVLNode d l r' hn) }
         else Some node)"

fun deleteHelper :: "avl_node \<Rightarrow> int \<Rightarrow> avl_node option" where
  "deleteHelper NilNode value = Some NilNode"
| "deleteHelper (AVLNode d l r h) value =
     (if value < d then do { l' \<leftarrow> deleteHelper l value; deleteRebalance (AVLNode d l' r h) }
      else if value > d then do { r' \<leftarrow> deleteHelper r value; deleteRebalance (AVLNode d l r' h) }
      else if l = NilNode \<or> r = NilNode then
        (let temp = (if l \<noteq> NilNode then l else r)
         in if temp = NilNode then Some NilNode else deleteRebalance temp)
      else
        do { temp \<leftarrow> minValueNode r;
             case temp of
               NilNode \<Rightarrow> None
             | AVLNode td _ _ _ \<Rightarrow>
                 do { r' \<leftarrow> deleteHelper r td; deleteRebalance (AVLNode td l r' h) } })"

definition AVLTree_Remove :: "avl_tree \<Rightarrow> int \<Rightarrow> avl_tree option" where
  "AVLTree_Remove a value = map_option (\<lambda>r. a\<lparr>root := r\<rparr>) (deleteHelper (root a) value)"

fun searchHelper :: "avl_node \<Rightarrow> int \<Rightarrow> avl_node" where
  "searchHelper NilNode value = NilNode"
| "searchHelper (AVLNode d l r h) value =
     (if d = value then AVLNode d l r h
      else if value < d then searchHelper l value
      else searchHelper r value)"

definition AVLTree_Search :: "avl_tree \<Rightarrow> int \<Rightarrow> avl_node" where
  "AVLTree_Search a value = searchHelper (root a) value"

fun countElementsHelper :: "avl_node \<Rightarrow> nat" where
  "countElementsHelper NilNode = 0"
| "countElementsHelper (AVLNode _ l r _) = 1 + countElementsHelper l + countElementsHelper r"

definition CountElements :: "avl_tree \<Rightarrow> nat" where
  "CountElements a = countElementsHelper (root a)"

fun saveTreeHelper :: "avl_node \<Rightarrow> int list \<Rightarrow> int list" where
  "saveTreeHelper NilNode result = result"
| "saveTreeHelper (AVLNode d l r _) result = saveTreeHelper r (saveTreeHelper l result @ [d])"

definition SaveTree :: "avl_tree \<Rightarrow> int list" where
  "SaveTree a = saveTreeHelper (root a) []"

definition AVLTree_IsEmpty :: "avl_tree \<Rightarrow> bool" where
  "AVLTree_IsEmpty a = (root a = NilNode)"

definition AVLTree_Cleanup :: "avl_tree \<Rightarrow> avl_tree" where
  "AVLTree_Cleanup a = a\<lparr>root := NilNode\<rparr>"


section \<open>Abstraction and invariant\<close>

text \<open>
  \<open>inorder\<close> is the key sequence an in-order walk visits (what \<open>SaveTree\<close> returns);
  \<open>tree_height\<close> is the real height, as opposed to the cached field read by
  \<open>height\<close>. \<open>avl\<close> is the invariant of the source's comments: every cached height is
  one more than the larger cached height of the children, and the children's heights
  differ by at most one. \<open>balanced\<close> states the same with real heights, as the
  specification does; the two agree (\<open>avl_iff_balanced\<close>).
\<close>
fun inorder :: "avl_node \<Rightarrow> int list" where
  "inorder NilNode = []"
| "inorder (AVLNode d l r _) = inorder l @ d # inorder r"

fun tree_height :: "avl_node \<Rightarrow> nat" where
  "tree_height NilNode = 0"
| "tree_height (AVLNode _ l r _) = 1 + max (tree_height l) (tree_height r)"

fun avl :: "avl_node \<Rightarrow> bool" where
  "avl NilNode = True"
| "avl (AVLNode _ l r h) \<longleftrightarrow>
     avl l \<and> avl r \<and> h = 1 + max (height l) (height r) \<and>
     height l \<le> height r + 1 \<and> height r \<le> height l + 1"


fun balanced :: "avl_node \<Rightarrow> bool" where
  "balanced NilNode = True"
| "balanced (AVLNode _ l r h) \<longleftrightarrow>
     balanced l \<and> balanced r \<and> h = 1 + max (tree_height l) (tree_height r) \<and>
     \<bar>int (tree_height l) - int (tree_height r)\<bar> \<le> 1"

text \<open>
  After an insertion of \<open>v\<close> made a subtree one level higher, the subtree is a node
  whose key differs from \<open>v\<close> and which leans towards the side \<open>v\<close> went to.
  This is what makes the key comparisons of \<open>insertHelper\<close> pick the same rotation
  as the balance tests of \<open>deleteHelper\<close>.
\<close>
definition grown_toward :: "int \<Rightarrow> avl_node \<Rightarrow> bool" where
  "grown_toward v t = (case t of NilNode \<Rightarrow> False
     | AVLNode d l r _ \<Rightarrow> v \<noteq> d \<and> (v < d \<longrightarrow> height l = height r + 1) \<and>
                         (d < v \<longrightarrow> height r = height l + 1))"

definition insert_grows :: "int \<Rightarrow> avl_node \<Rightarrow> avl_node \<Rightarrow> bool" where
  "insert_grows v t t' \<longleftrightarrow>
     height t' = height t \<or> height t' = height t + 1 \<and> (t = NilNode \<or> grown_toward v t')"


text \<open>
  The states a tree handle can reach from \<open>NewAVLTree\<close> through the public
  operations that change it (\<open>AVLTree_Insert\<close>, \<open>AVLTree_Remove\<close>, \<open>AVLTree_Cleanup\<close>); an insertion
  or removal that panics has no successor state.
\<close>

inductive tree_reachable :: "avl_tree \<Rightarrow> bool" where
  new: "tree_reachable (NewAVLTree name)"
| insert: "tree_reachable a \<Longrightarrow> AVLTree_Insert a v = Some a' \<Longrightarrow> tree_reachable a'"
| remove: "tree_reachable a \<Longrightarrow> AVLTree_Remove a v = Some a' \<Longrightarrow> tree_reachable a'"
| cleanup: "tree_reachable a \<Longrightarrow> tree_reachable (AVLTree_Cleanup a)"

section \<open>Rotations and rebalancing\<close>


lemma go_max_max [simp]: "go_max a b = max a b"
  by (simp add: go_max_def)

lemma avl_height_real: "avl t \<Longrightarrow> height t = tree_height t"
  by (induction t) auto

lemma rotateRight_inorder: "rotateRight t = Some t' \<Longrightarrow> inorder t' = inorder t"
  by (cases t rule: rotateRight.cases) auto

lemma rotateLeft_inorder: "rotateLeft t = Some t' \<Longrightarrow> inorder t' = inorder t"
  by (cases t rule: rotateLeft.cases) auto

lemma deleteRebalance_inorder:
  "deleteRebalance t = Some t' \<Longrightarrow> inorder t' = inorder t"
  by (cases t) (auto simp: Let_def rotateRight_inorder rotateLeft_inorder
                 split: if_splits Option.bind_splits dest!: rotateRight_inorder rotateLeft_inorder)

lemma deleteRebalance_balanced:
  "height l \<le> height r + 1 \<Longrightarrow> height r \<le> height l + 1 \<Longrightarrow>
   deleteRebalance (AVLNode d l r h) = Some (AVLNode d l r (1 + max (height l) (height r)))"
  by (simp add: Let_def)

lemma deleteRebalance_left_heavy:
  assumes "avl l" "avl r" "height l = height r + 2"
  shows "\<exists>t'. deleteRebalance (AVLNode d l r h) = Some t' \<and> avl t' \<and>
           height t' = (if balanceFactor l = 0 then height l + 1 else height l)"
proof -
  from assms obtain ld ll lr lh where l: "l = AVLNode ld ll lr lh"
    by (cases l) auto
  show ?thesis
  proof (cases "height lr \<le> height ll")
    case True
    with assms l show ?thesis by (auto simp: Let_def max_def split: if_split_asm)
  next
    case False
    with assms l obtain lrd lrl lrr lrh where lr: "lr = AVLNode lrd lrl lrr lrh"
      by (cases lr) auto
    from False assms l lr show ?thesis by (auto simp: Let_def max_def split: if_split_asm)
  qed
qed

lemma deleteRebalance_right_heavy:
  assumes "avl l" "avl r" "height r = height l + 2"
  shows "\<exists>t'. deleteRebalance (AVLNode d l r h) = Some t' \<and> avl t' \<and>
           height t' = (if balanceFactor r = 0 then height r + 1 else height r)"
proof -
  from assms obtain rd rl rr rh where r: "r = AVLNode rd rl rr rh"
    by (cases r) auto
  show ?thesis
  proof (cases "height rl \<le> height rr")
    case True
    with assms r show ?thesis by (auto simp: Let_def max_def split: if_split_asm)
  next
    case False
    with assms r obtain rld rll rlr rlh where rl: "rl = AVLNode rld rll rlr rlh"
      by (cases rl) auto
    from False assms r rl show ?thesis by (auto simp: Let_def max_def split: if_split_asm)
  qed
qed

section \<open>Insertion\<close>

lemma insertRebalance_as_delete:
  assumes "height l \<le> height r + 2" "height r \<le> height l + 2"
    and "height l = height r + 2 \<Longrightarrow> grown_toward v l"
    and "height r = height l + 2 \<Longrightarrow> grown_toward v r"
  shows "insertRebalance v d l r = deleteRebalance (AVLNode d l r h)"
proof (cases "height l = height r + 2")
  case True
  with assms obtain ld ll lr lh where l: "l = AVLNode ld ll lr lh"
    by (cases l) (auto simp: grown_toward_def)
  have bal: "balanceFactor (AVLNode d l r hn) > 1" for hn
    using True by simp
  from True assms(3) l have "(v < ld) = (balanceFactor l \<ge> 0)" "(ld < v) = (balanceFactor l < 0)"
    by (auto simp: grown_toward_def)
  then show ?thesis
    unfolding insertRebalance_def deleteRebalance.simps Let_def
    using bal by (simp add: l)
next
  case False
  show ?thesis
  proof (cases "height r = height l + 2")
    case True
    with assms obtain rd rl rr rh where r: "r = AVLNode rd rl rr rh"
      by (cases r) (auto simp: grown_toward_def)
    have bal: "balanceFactor (AVLNode d l r hn) < -1" for hn
      using True by simp
    from True assms(4) r have "(v > rd) = (balanceFactor r \<le> 0)" "(v < rd) = (balanceFactor r > 0)"
      by (auto simp: grown_toward_def)
    then show ?thesis
      unfolding insertRebalance_def deleteRebalance.simps Let_def
      using bal by (simp add: r)
  next
    case False
    with \<open>height l \<noteq> height r + 2\<close> assms(1,2) show ?thesis
      by (simp add: insertRebalance_def Let_def)
  qed
qed

lemma grown_toward_unbalanced: "grown_toward v t \<Longrightarrow> balanceFactor t \<noteq> 0"
  by (cases t) (simp_all add: grown_toward_def, linarith)

lemma insertRebalance_left:
  assumes "avl (AVLNode d l r h)" "avl l'" "v < d" "insert_grows v l l'"
  shows "\<exists>t'. insertRebalance v d l' r = Some t' \<and> avl t' \<and>
           insert_grows v (AVLNode d l r h) t'"
proof (cases "height l' = height r + 2")
  case True
  with assms have grown: "grown_toward v l'" and "l \<noteq> NilNode"
    by (auto simp: insert_grows_def)
  have eq: "insertRebalance v d l' r = deleteRebalance (AVLNode d l' r h)"
    by (rule insertRebalance_as_delete) (use True grown in simp_all)
  from grown have "balanceFactor l' \<noteq> 0"
    by (rule grown_toward_unbalanced)
  moreover from True assms obtain t' where
    "deleteRebalance (AVLNode d l' r h) = Some t'" "avl t'"
    "height t' = (if balanceFactor l' = 0 then height l' + 1 else height l')"
    using deleteRebalance_left_heavy [of l' r d h] by auto
  moreover from True assms have "height l' = h"
    by (auto simp: insert_grows_def)
  ultimately show ?thesis
    by (simp add: eq insert_grows_def)
next
  case False
  with assms have hs: "height l' \<le> height r + 1" "height r \<le> height l' + 1"
    by (auto simp: insert_grows_def)
  then have "insertRebalance v d l' r = Some (AVLNode d l' r (1 + max (height l') (height r)))"
    by (simp add: insertRebalance_def Let_def)
  with assms hs show ?thesis
    by (auto simp: insert_grows_def grown_toward_def max_def)
qed



lemma insertRebalance_right:
  assumes "avl (AVLNode d l r h)" "avl r'" "d < v" "insert_grows v r r'"
  shows "\<exists>t'. insertRebalance v d l r' = Some t' \<and> avl t' \<and>
           insert_grows v (AVLNode d l r h) t'"
proof (cases "height r' = height l + 2")
  case True
  with assms have grown: "grown_toward v r'" and "r \<noteq> NilNode"
    by (auto simp: insert_grows_def)
  have eq: "insertRebalance v d l r' = deleteRebalance (AVLNode d l r' h)"
    by (rule insertRebalance_as_delete) (use True grown in simp_all)
  from grown have "balanceFactor r' \<noteq> 0"
    by (rule grown_toward_unbalanced)
  moreover from True assms obtain t' where
    "deleteRebalance (AVLNode d l r' h) = Some t'" "avl t'"
    "height t' = (if balanceFactor r' = 0 then height r' + 1 else height r')"
    using deleteRebalance_right_heavy [of l r' d h] by auto
  moreover from True assms have "height r' = h"
    by (auto simp: insert_grows_def)
  ultimately show ?thesis
    by (simp add: eq insert_grows_def)
next
  case False
  with assms have hs: "height r' \<le> height l + 1" "height l \<le> height r' + 1"
    by (auto simp: insert_grows_def)
  then have "insertRebalance v d l r' = Some (AVLNode d l r' (1 + max (height l) (height r')))"
    by (simp add: insertRebalance_def Let_def)
  with assms hs show ?thesis
    by (auto simp: insert_grows_def grown_toward_def max_def)
qed

theorem insertHelper_avl:
  "avl t \<Longrightarrow> \<exists>t'. insertHelper t v = Some t' \<and> avl t' \<and> insert_grows v t t'"
proof (induction t)
  case NilNode
  then show ?case by (simp add: insert_grows_def)
next
  case (AVLNode d l r h)
  show ?case
  proof (cases "v < d")
    case True
    with AVLNode obtain l' where "insertHelper l v = Some l'" "avl l'" "insert_grows v l l'"
      by auto
    with True AVLNode.prems insertRebalance_left [of d l r h l' v] show ?thesis by auto
  next
    case False
    show ?thesis
    proof (cases "d < v")
      case True
      with AVLNode obtain r' where "insertHelper r v = Some r'" "avl r'" "insert_grows v r r'"
        by auto
      with True \<open>\<not> v < d\<close> AVLNode.prems insertRebalance_right [of d l r h r' v] show ?thesis
        by auto
    next
      case False
      with \<open>\<not> v < d\<close> AVLNode.prems show ?thesis by (simp add: insert_grows_def)
    qed
  qed
qed


lemma insertRebalance_inorder:
  "insertRebalance v d l r = Some t' \<Longrightarrow> inorder t' = inorder l @ d # inorder r"
  by (auto simp: insertRebalance_def Let_def split: if_splits avl_node.splits Option.bind_splits
           dest!: rotateRight_inorder rotateLeft_inorder)

theorem insertHelper_inorder:
  "insertHelper t v = Some t' \<Longrightarrow> strictly_sorted (inorder t) \<Longrightarrow>
   inorder t' = ins_list v (inorder t)"
proof (induction t arbitrary: t')
  case NilNode
  then show ?case by auto
next
  case (AVLNode d l r h)
  from AVLNode.prems(2) have l: "\<forall>y\<in>set (inorder l). y < d" and r: "\<forall>y\<in>set (inorder r). d < y"
    and sl: "strictly_sorted (inorder l)" and sr: "strictly_sorted (inorder r)"
    by (simp_all add: strictly_sorted_mid_iff)
  consider (lt) "v < d" | (gt) "d < v" | (eq) "v = d" by fastforce
  then show ?case
  proof cases
    case lt
    with AVLNode.prems obtain l' where "insertHelper l v = Some l'" "insertRebalance v d l' r = Some t'"
      by (auto split: Option.bind_splits)
    with lt l sl AVLNode.IH(1) show ?thesis
      by (simp add: insertRebalance_inorder ins_list_before)
  next
    case gt
    with AVLNode.prems obtain r' where "insertHelper r v = Some r'" "insertRebalance v d l r' = Some t'"
      by (auto split: Option.bind_splits)
    with gt l sr AVLNode.IH(2) show ?thesis
      by (simp add: insertRebalance_inorder ins_list_after)
  next
    case eq
    with AVLNode.prems(1) have "t' = AVLNode d l r h" by simp
    with eq l show ?thesis by (simp add: ins_list_after)
  qed
qed

section \<open>Deletion\<close>

lemma deleteRebalance_avl_id: "avl t \<Longrightarrow> deleteRebalance t = Some t"
  by (cases t) (simp_all add: Let_def)

lemma deleteRebalance_shrunk:
  assumes "avl l" "avl r" "height l \<le> height r + 1" "height r \<le> height l + 1"
    and "avl l'" "avl r'"
    and "height l' = height l \<and> height r' = height r \<or> height l' + 1 = height l \<and> height r' = height r \<or>
         height l' = height l \<and> height r' + 1 = height r"
  shows "\<exists>t'. deleteRebalance (AVLNode k l' r' h) = Some t' \<and> avl t' \<and>
           (height t' = 1 + max (height l) (height r) \<or> height t' + 1 = 1 + max (height l) (height r))"
proof (cases "height l' = height r' + 2")
  case True
  with assms deleteRebalance_left_heavy [of l' r' k h] show ?thesis by auto
next
  case False
  show ?thesis
  proof (cases "height r' = height l' + 2")
    case True
    with assms deleteRebalance_right_heavy [of l' r' k h] show ?thesis by auto
  next
    case False
    with \<open>height l' \<noteq> height r' + 2\<close> assms show ?thesis
      by (auto simp: deleteRebalance_balanced max_def)
  qed
qed

declare deleteRebalance.simps(2) [simp del]

lemma minValueNode_hd:
  "minValueNode t = Some m \<Longrightarrow>
   \<exists>md ml mr mh. m = AVLNode md ml mr mh \<and> inorder t \<noteq> [] \<and> hd (inorder t) = md"
  by (induction t rule: minValueNode.induct) (auto simp: hd_append)

lemma minValueNode_exists: "t \<noteq> NilNode \<Longrightarrow> \<exists>m. minValueNode t = Some m"
  by (induction t rule: minValueNode.induct) auto


theorem deleteHelper_avl:
  "avl t \<Longrightarrow>
   \<exists>t'. deleteHelper t v = Some t' \<and> avl t' \<and> (height t' = height t \<or> height t' + 1 = height t)"
proof (induction t v rule: deleteHelper.induct)
  case (1 v)
  then show ?case by simp
next
  case (2 d l r h v)
  from "2.prems" have avl_l: "avl l" and avl_r: "avl r"
    and bal: "height l \<le> height r + 1" "height r \<le> height l + 1"
    and hh: "h = 1 + max (height l) (height r)"
    by auto
  consider (lt) "v < d" | (gt) "\<not> v < d" "d < v"
    | (one) "\<not> v < d" "\<not> d < v" "l = NilNode \<or> r = NilNode"
    | (two) "\<not> v < d" "\<not> d < v" "l \<noteq> NilNode" "r \<noteq> NilNode"
    by blast
  then show ?case
  proof cases
    case lt
    with "2.IH"(1) avl_l obtain l' where l': "deleteHelper l v = Some l'" "avl l'"
      "height l' = height l \<or> height l' + 1 = height l"
      by blast
    with avl_l avl_r bal obtain t' where "deleteRebalance (AVLNode d l' r h) = Some t'" "avl t'"
      "height t' = h \<or> height t' + 1 = h"
      using deleteRebalance_shrunk [of l r l' r d h] hh by auto
    with lt l' show ?thesis by auto
  next
    case gt
    with "2.IH"(2) avl_r obtain r' where r': "deleteHelper r v = Some r'" "avl r'"
      "height r' = height r \<or> height r' + 1 = height r"
      by blast
    with avl_l avl_r bal obtain t' where "deleteRebalance (AVLNode d l r' h) = Some t'" "avl t'"
      "height t' = h \<or> height t' + 1 = h"
      using deleteRebalance_shrunk [of l r l r' d h] hh by auto
    with gt r' show ?thesis by auto
  next
    case one
    with avl_l avl_r bal hh show ?thesis
      by (cases l; cases r) (auto simp: deleteRebalance_avl_id)
  next
    case two
    obtain m where m: "minValueNode r = Some m"
      using minValueNode_exists [OF two(4)] by blast
    then obtain md ml mr mh where md: "m = AVLNode md ml mr mh"
      using minValueNode_hd by blast
    from "2.IH"(3) [OF two(1-2) _ m md] two avl_r obtain r' where r': "deleteHelper r md = Some r'"
      "avl r'" "height r' = height r \<or> height r' + 1 = height r"
      by blast
    with avl_l avl_r bal obtain t' where "deleteRebalance (AVLNode md l r' h) = Some t'" "avl t'"
      "height t' = h \<or> height t' + 1 = h"
      using deleteRebalance_shrunk [of l r l r' md h] hh by auto
    with two m md r' show ?thesis by auto
  qed
qed

theorem deleteHelper_inorder:
  "deleteHelper t v = Some t' \<Longrightarrow> strictly_sorted (inorder t) \<Longrightarrow>
   inorder t' = del_list v (inorder t)"
proof (induction t v arbitrary: t' rule: deleteHelper.induct)
  case (1 v)
  then show ?case by auto
next
  case (2 d l r h v)
  from "2.prems"(2) have l: "\<forall>y\<in>set (inorder l). y < d" and r: "\<forall>y\<in>set (inorder r). d < y"
    and sl: "strictly_sorted (inorder l)" and sr: "strictly_sorted (inorder r)"
    by (simp_all add: strictly_sorted_mid_iff)
  have at_d: "del_list d (inorder l @ d # inorder r) = inorder l @ inorder r"
    using l by (simp add: del_list_after)
  consider (lt) "v < d" | (gt) "\<not> v < d" "d < v"
    | (one) "\<not> v < d" "\<not> d < v" "l = NilNode \<or> r = NilNode"
    | (two) "\<not> v < d" "\<not> d < v" "l \<noteq> NilNode" "r \<noteq> NilNode"
    by blast
  then show ?case
  proof cases
    case lt
    with "2.prems"(1) obtain l' where "deleteHelper l v = Some l'"
      "deleteRebalance (AVLNode d l' r h) = Some t'"
      by (auto split: Option.bind_splits)
    with lt r sl "2.IH"(1) show ?thesis
      by (simp add: deleteRebalance_inorder del_list_before)
  next
    case gt
    with "2.prems"(1) obtain r' where "deleteHelper r v = Some r'"
      "deleteRebalance (AVLNode d l r' h) = Some t'"
      by (auto split: Option.bind_splits)
    with gt l sr "2.IH"(2) show ?thesis
      by (simp add: deleteRebalance_inorder del_list_after)
  next
    case one
    then have "v = d" by simp
    with one "2.prems"(1) at_d show ?thesis
      by (cases l; cases r) (auto dest: deleteRebalance_inorder)
  next
    case two
    then have "v = d" by simp
    obtain m where m: "minValueNode r = Some m"
      using minValueNode_exists [OF two(4)] by blast
    then obtain md ml mr mh where md: "m = AVLNode md ml mr mh" and
      hd: "inorder r = md # tl (inorder r)"
      using minValueNode_hd by fastforce
    with two m "2.prems"(1) obtain r' where r': "deleteHelper r md = Some r'"
      "deleteRebalance (AVLNode md l r' h) = Some t'"
      by (auto split: Option.bind_splits)
    from "2.IH"(3) [OF two(1-2) _ m md r'(1) sr] two
    have "inorder r' = del_list md (inorder r)" by blast
    also have "\<dots> = tl (inorder r)"
      using sr hd by (metis del_list.simps(2) del_list_notin list.set_intros(1)
                       sorted_wrt.simps(2) order_less_irrefl)
    finally show ?thesis
      using r'(2) hd at_d \<open>v = d\<close> by (metis deleteRebalance_inorder inorder.simps(2))
  qed
qed



section \<open>AVLTree_Search, count, traversal and the tree handle\<close>

lemma searchHelper_key: "searchHelper t v = AVLNode d l r h \<Longrightarrow> d = v"
  by (induction t) (auto split: if_splits)

lemma searchHelper_member:
  "strictly_sorted (inorder t) \<Longrightarrow> (searchHelper t v \<noteq> NilNode) = (v \<in> set (inorder t))"
  by (induction t) (auto simp: strictly_sorted_mid_iff)

lemma countElementsHelper_inorder: "countElementsHelper t = length (inorder t)"
  by (induction t) auto

lemma saveTreeHelper_inorder: "saveTreeHelper t acc = acc @ inorder t"
  by (induction t arbitrary: acc) auto

lemma SaveTree_inorder: "SaveTree a = inorder (root a)"
  by (simp add: SaveTree_def saveTreeHelper_inorder)

lemma balanced_height: "balanced t \<Longrightarrow> height t = tree_height t"
  by (cases t) auto

lemma avl_iff_balanced: "avl t \<longleftrightarrow> balanced t"
proof (induction t)
  case NilNode
  then show ?case by simp
next
  case (AVLNode d l r h)
  show ?case
  proof
    assume "avl (AVLNode d l r h)"
    with AVLNode.IH show "balanced (AVLNode d l r h)"
      by (auto simp: avl_height_real)
  next
    assume "balanced (AVLNode d l r h)"
    with AVLNode.IH show "avl (AVLNode d l r h)"
      by (auto simp: balanced_height)
  qed
qed

lemma Insert_correct:
  assumes "avl (root a)" "strictly_sorted (inorder (root a))"
  shows "\<exists>a'. AVLTree_Insert a v = Some a' \<and> avl (root a') \<and>
           inorder (root a') = ins_list v (inorder (root a)) \<and> tree_name a' = tree_name a"
proof -
  from assms(1) obtain t' where "insertHelper (root a) v = Some t'" "avl t'"
    using insertHelper_avl by blast
  with assms(2) show ?thesis
    by (simp add: AVLTree_Insert_def insertHelper_inorder)
qed

lemma Remove_correct:
  assumes "avl (root a)" "strictly_sorted (inorder (root a))"
  shows "\<exists>a'. AVLTree_Remove a v = Some a' \<and> avl (root a') \<and>
           inorder (root a') = del_list v (inorder (root a)) \<and> tree_name a' = tree_name a"
proof -
  from assms(1) obtain t' where "deleteHelper (root a) v = Some t'" "avl t'"
    using deleteHelper_avl by blast
  with assms(2) show ?thesis
    by (simp add: AVLTree_Remove_def deleteHelper_inorder)
qed

lemma tree_reachable_avl:
  "tree_reachable a \<Longrightarrow> avl (root a) \<and> strictly_sorted (inorder (root a))"
proof (induction rule: tree_reachable.induct)
  case (new name)
  then show ?case by (simp add: NewAVLTree_def)
next
  case (insert a v a')
  then show ?case
    using Insert_correct [of a v] by (auto intro: strictly_sorted_ins_list)
next
  case (remove a v a')
  then show ?case
    using Remove_correct [of a v] by (auto intro: strictly_sorted_del_list)
next
  case (cleanup a)
  then show ?case by (simp add: AVLTree_Cleanup_def)
qed


lemma example_tree_reachable:
  "tree_reachable \<lparr>tree_name = ''t'',
     root = AVLNode 50 (AVLNode 30 NilNode NilNode 1) (AVLNode 70 NilNode NilNode 1) 2\<rparr>"
proof -
  have "tree_reachable (NewAVLTree ''t'')"
    by (rule tree_reachable.new)
  then have "tree_reachable \<lparr>tree_name = ''t'', root = AVLNode 50 NilNode NilNode 1\<rparr>"
    by (rule tree_reachable.insert [where v = 50]) (simp add: AVLTree_Insert_def NewAVLTree_def)
  then have "tree_reachable \<lparr>tree_name = ''t'',
      root = AVLNode 50 (AVLNode 30 NilNode NilNode 1) NilNode 2\<rparr>"
    by (rule tree_reachable.insert [where v = 30]) (simp add: AVLTree_Insert_def insertRebalance_def)
  then show ?thesis
    by (rule tree_reachable.insert [where v = 70]) (simp add: AVLTree_Insert_def insertRebalance_def)
qed

section \<open>Properties of the AVL tree\<close>

text \<open>
  C1. Balance and order: every tree reachable from \<open>NewAVLTree\<close> by \<open>AVLTree_Insert\<close>,
  \<open>AVLTree_Remove\<close> and \<open>AVLTree_Cleanup\<close> is balanced (each node's cached height is one more than
  the larger real height of its children, and these differ by at most one), and its
  in-order export \<open>SaveTree\<close> is strictly increasing.
\<close>

theorem reachable_balanced_sorted:
  "tree_reachable a \<Longrightarrow> balanced (root a) \<and> strictly_sorted (SaveTree a)"
  using tree_reachable_avl [of a] by (simp add: avl_iff_balanced SaveTree_inorder)

theorem reachable_balanced_sorted_witness:
  "balanced (AVLNode 50 (AVLNode 30 NilNode NilNode 1) (AVLNode 70 NilNode NilNode 1) 2) \<and>
   strictly_sorted (SaveTree \<lparr>tree_name = ''t'',
     root = AVLNode 50 (AVLNode 30 NilNode NilNode 1) (AVLNode 70 NilNode NilNode 1) 2\<rparr>)"
  using reachable_balanced_sorted [OF example_tree_reachable] by simp

text \<open>
  C3. Insertion: on a reachable tree \<open>AVLTree_Insert\<close> never panics, and the new in-order
  export is the old one with the key inserted in order; an existing key leaves it
  unchanged (duplicates are not stored).
\<close>

theorem Insert_reachable:
  "tree_reachable a \<Longrightarrow> \<exists>a'. AVLTree_Insert a v = Some a' \<and> SaveTree a' = ins_list v (SaveTree a)"
  using tree_reachable_avl [of a] Insert_correct [of a v] by (auto simp: SaveTree_inorder)

theorem Insert_reachable_witness:
  "\<exists>a'. AVLTree_Insert \<lparr>tree_name = ''t'',
     root = AVLNode 50 (AVLNode 30 NilNode NilNode 1) (AVLNode 70 NilNode NilNode 1) 2\<rparr> 40 = Some a' \<and>
     SaveTree a' = [30, 40, 50, 70]"
  using Insert_reachable [OF example_tree_reachable, of 40] by (simp add: SaveTree_def)

text \<open>
  C4. Removal: on a reachable tree \<open>AVLTree_Remove\<close> never panics, and the new in-order
  export is the old one with the key taken out; removing an absent key changes nothing.
\<close>

theorem Remove_reachable:
  "tree_reachable a \<Longrightarrow> \<exists>a'. AVLTree_Remove a v = Some a' \<and> SaveTree a' = del_list v (SaveTree a)"
  using tree_reachable_avl [of a] Remove_correct [of a v] by (auto simp: SaveTree_inorder)

theorem Remove_reachable_witness:
  "\<exists>a'. AVLTree_Remove \<lparr>tree_name = ''t'',
     root = AVLNode 50 (AVLNode 30 NilNode NilNode 1) (AVLNode 70 NilNode NilNode 1) 2\<rparr> 50 = Some a' \<and>
     SaveTree a' = [30, 70]"
  using Remove_reachable [OF example_tree_reachable, of 50] by (simp add: SaveTree_def)

text \<open>
  C9. AVLTree_Search: on a reachable tree \<open>AVLTree_Search\<close> returns a node exactly when the key is
  stored, and the node it returns holds that key.
\<close>

theorem Search_reachable:
  "tree_reachable a \<Longrightarrow>
   (AVLTree_Search a v \<noteq> NilNode \<longleftrightarrow> v \<in> set (SaveTree a)) \<and>
   (\<forall>d l r h. AVLTree_Search a v = AVLNode d l r h \<longrightarrow> d = v)"
  using tree_reachable_avl [of a]
  by (auto simp: AVLTree_Search_def SaveTree_inorder searchHelper_member dest: searchHelper_key)

theorem Search_reachable_witness:
  "AVLTree_Search \<lparr>tree_name = ''t'',
     root = AVLNode 50 (AVLNode 30 NilNode NilNode 1) (AVLNode 70 NilNode NilNode 1) 2\<rparr> 30 \<noteq> NilNode \<and>
   AVLTree_Search \<lparr>tree_name = ''t'',
     root = AVLNode 50 (AVLNode 30 NilNode NilNode 1) (AVLNode 70 NilNode NilNode 1) 2\<rparr> 40 = NilNode"
  using Search_reachable [OF example_tree_reachable, of 30]
        Search_reachable [OF example_tree_reachable, of 40]
  by (simp_all add: SaveTree_def)

text \<open>
  C11. Rotation choice: after an insertion below a node, the key comparisons with
  which \<open>insertHelper\<close> picks its rotation choose the same rotation as the balance
  tests of \<open>deleteHelper\<close>, whenever the grown child leans towards the inserted key
  (which \<open>insertHelper\<close> guarantees, see \<open>insertHelper_avl\<close>).
\<close>

theorem insert_rotation_matches_delete:
  assumes "height l \<le> height r + 2" "height r \<le> height l + 2"
    and "height l = height r + 2 \<Longrightarrow> grown_toward v l"
    and "height r = height l + 2 \<Longrightarrow> grown_toward v r"
  shows "insertRebalance v d l r = deleteRebalance (AVLNode d l r h)"
  using assms by (rule insertRebalance_as_delete)

theorem insert_rotation_matches_delete_witness:
  "insertRebalance 10 30 (AVLNode 20 (AVLNode 10 NilNode NilNode 1) NilNode 2) NilNode =
   deleteRebalance (AVLNode 30 (AVLNode 20 (AVLNode 10 NilNode NilNode 1) NilNode 2) NilNode 3)"
  by (rule insert_rotation_matches_delete) (simp_all add: grown_toward_def)

text \<open>
  C13. Count: on a reachable tree \<open>CountElements\<close> is the number of distinct keys
  stored, and the in-order export lists each of them once.
\<close>

theorem CountElements_reachable:
  "tree_reachable a \<Longrightarrow>
   CountElements a = card (set (SaveTree a)) \<and> CountElements a = length (SaveTree a)"
  using tree_reachable_avl [of a]
  by (simp add: CountElements_def countElementsHelper_inorder SaveTree_inorder
                distinct_card strict_sorted_iff)

theorem CountElements_reachable_witness:
  "CountElements \<lparr>tree_name = ''t'',
     root = AVLNode 50 (AVLNode 30 NilNode NilNode 1) (AVLNode 70 NilNode NilNode 1) 2\<rparr> = 3"
  using CountElements_reachable [OF example_tree_reachable] by (simp add: SaveTree_def)

text \<open>
  Empty state: a fresh or cleared tree is empty, counts no element, finds no key,
  and removing any key from it is a no-op.
\<close>

theorem empty_tree_contract:
  "AVLTree_IsEmpty (AVLTree_Cleanup a) \<and> CountElements (AVLTree_Cleanup a) = 0 \<and> AVLTree_Search (AVLTree_Cleanup a) v = NilNode \<and>
   AVLTree_Remove (AVLTree_Cleanup a) v = Some (AVLTree_Cleanup a) \<and> SaveTree (AVLTree_Cleanup a) = [] \<and>
   AVLTree_IsEmpty (NewAVLTree n) \<and> CountElements (NewAVLTree n) = 0 \<and>
   AVLTree_Search (NewAVLTree n) v = NilNode"
  by (simp add: AVLTree_IsEmpty_def AVLTree_Cleanup_def CountElements_def AVLTree_Search_def AVLTree_Remove_def SaveTree_def
                NewAVLTree_def)

text \<open>
  The scenarios of the specification: inserting 50, 30, 70, 20, 40, 60, 80 into a new
  tree exports [20, 30, 40, 50, 60, 70, 80] and counts 7; inserting 50 twice counts 1;
  removing 50 from the tree of 50, 30, 70 leaves 30 and 70 findable and 50 not.
\<close>

theorem spec_tree_scenarios:
  "map_option SaveTree (fold (\<lambda>v t. Option.bind t (\<lambda>a. AVLTree_Insert a v))
      [50, 30, 70, 20, 40, 60, 80] (Some (NewAVLTree ''t''))) = Some [20, 30, 40, 50, 60, 70, 80] \<and>
   map_option CountElements (fold (\<lambda>v t. Option.bind t (\<lambda>a. AVLTree_Insert a v))
      [50, 30, 70, 20, 40, 60, 80] (Some (NewAVLTree ''t''))) = Some 7 \<and>
   map_option CountElements (fold (\<lambda>v t. Option.bind t (\<lambda>a. AVLTree_Insert a v))
      [50, 50] (Some (NewAVLTree ''t''))) = Some 1 \<and>
   map_option (\<lambda>a. (CountElements a, AVLTree_Search a 50 = NilNode, AVLTree_Search a 30 \<noteq> NilNode,
                      AVLTree_Search a 70 \<noteq> NilNode))
     (Option.bind (fold (\<lambda>v t. Option.bind t (\<lambda>a. AVLTree_Insert a v)) [50, 30, 70]
        (Some (NewAVLTree ''t''))) (\<lambda>a. AVLTree_Remove a 50)) = Some (2, True, True, True)"
  by (simp add: AVLTree_Insert_def AVLTree_Remove_def NewAVLTree_def SaveTree_def CountElements_def AVLTree_Search_def
                insertRebalance_def deleteRebalance.simps(2))

end
