(* ===== verification/Hash_Table.thy ===== *)
theory Hash_Table
  imports Prelude
begin

text \<open>
  The chained hash table of \<^verbatim>\<open>src/hash_table.go\<close>. A collision chain of
  \<open>*HashEntry\<close> nodes, linked by \<open>Next\<close> and owned by its bucket slot, is the list of
  its entries from the head; the bucket array \<open>[]*HashEntry\<close> is a list of chains.
  Go's \<open>int\<close> hash is a 64-bit word, so the multiplicative hash wraps as the code's
  does, and Go's \<open>%\<close> (which truncates towards zero) is \<open>smod\<close> on the signed
  reading. Mutating methods return the new table; \<open>HashTable_Remove\<close> also returns its
  \<open>bool\<close>, \<open>HashTable_Search\<close> its pair.
\<close>

section \<open>Model\<close>

record hash_entry =
  Key :: string
  Value :: string

record hash_table =
  ht_name :: string
  buckets :: "hash_entry list list"
  capacity :: nat
  ht_size :: nat

definition NewHashTable :: "string \<Rightarrow> hash_table" where
  "NewHashTable name =
     (let capacity = 10
      in \<lparr>ht_name = name, buckets = replicate capacity [], capacity = capacity, ht_size = 0\<rparr>)"

text \<open>
  The loop \<open>for _, c := range key { hash = ((hash << 5) + hash) + int(c) }\<close>, on the
  64-bit \<open>int\<close>. Each \<open>char\<close> of the key is one rune (see the header on non-ASCII keys).
\<close>

fun hashLoop :: "go_int \<Rightarrow> string \<Rightarrow> go_int" where
  "hashLoop hash [] = hash"
| "hashLoop hash (c # cs) = hashLoop ((push_bit 5 hash + hash) + of_nat (of_char c)) cs"

definition hashFunction :: "hash_table \<Rightarrow> string \<Rightarrow> int" where
  "hashFunction h key =
     (let hash = hashLoop 5381 key;
          result = sint hash smod int (capacity h)
      in if result < 0 then - result else result)"

definition hashFunctionWithCapacity :: "string \<Rightarrow> nat \<Rightarrow> int" where
  "hashFunctionWithCapacity key cap =
     (let hash = hashLoop 5381 key;
          result = sint hash smod int cap
      in if result < 0 then - result else result)"

text \<open>
  \<open>resize\<close>: the outer loop visits the old buckets \<open>0 .. capacity - 1\<close>; the inner
  loop (\<open>rehomeChain\<close>) walks a chain from its head and prepends each entry to the
  new bucket its key hashes to under the new capacity.
\<close>

fun rehomeChain :: "nat \<Rightarrow> hash_entry list \<Rightarrow> hash_entry list list \<Rightarrow> hash_entry list list" where
  "rehomeChain newCapacity [] newBuckets = newBuckets"
| "rehomeChain newCapacity (current # next) newBuckets =
     (let newIndex = nat (hashFunctionWithCapacity (Key current) newCapacity)
      in rehomeChain newCapacity next (newBuckets[newIndex := current # newBuckets ! newIndex]))"

definition resize :: "hash_table \<Rightarrow> nat \<Rightarrow> hash_table" where
  "resize h newCapacity =
     (let newBuckets = foldl (\<lambda>nb i. rehomeChain newCapacity (buckets h ! i) nb)
                         (replicate newCapacity []) [0..<capacity h]
      in h\<lparr>buckets := newBuckets, capacity := newCapacity\<rparr>)"

text \<open>
  \<open>int(float64(h.capacity)*0.7)\<close>, the resize threshold. On every capacity the table
  can have, \<open>10 * 2 ^ k\<close>, the floating-point product is exact: \<open>10 * 0.7\<close> rounds to
  \<open>7.0\<close> and scaling by a power of two is exact, so the threshold is \<open>7 * 2 ^ k\<close>.
\<close>

definition loadThreshold :: "nat \<Rightarrow> nat" where
  "loadThreshold cap = 7 * cap div 10"

text \<open>The scan of \<open>HashTable_Insert\<close> for the key: \<open>None\<close> when the chain does not hold it.\<close>

fun updateChain :: "string \<Rightarrow> string \<Rightarrow> hash_entry list \<Rightarrow> hash_entry list option" where
  "updateChain key value [] = None"
| "updateChain key value (current # next) =
     (if Key current = key then Some (current\<lparr>Value := value\<rparr> # next)
      else map_option (Cons current) (updateChain key value next))"

definition HashTable_Insert :: "hash_table \<Rightarrow> string \<Rightarrow> string \<Rightarrow> hash_table" where
  "HashTable_Insert h0 key value =
     (let h = (if ht_size h0 \<ge> loadThreshold (capacity h0) then resize h0 (capacity h0 * 2) else h0);
          index = nat (hashFunction h key);
          current = buckets h ! index
      in case updateChain key value current of
           Some chain \<Rightarrow> h\<lparr>buckets := (buckets h)[index := chain]\<rparr>
         | None \<Rightarrow> h\<lparr>buckets := (buckets h)[index := \<lparr>Key = key, Value = value\<rparr> # current],
                    ht_size := ht_size h + 1\<rparr>)"

fun searchChain :: "string \<Rightarrow> hash_entry list \<Rightarrow> string \<times> bool" where
  "searchChain key [] = ('''', False)"
| "searchChain key (current # next) =
     (if Key current = key then (Value current, True) else searchChain key next)"

definition HashTable_Search :: "hash_table \<Rightarrow> string \<Rightarrow> string \<times> bool" where
  "HashTable_Search h key = searchChain key (buckets h ! nat (hashFunction h key))"

text \<open>The scan of \<open>HashTable_Remove\<close>: the chain with the first entry of the key unlinked.\<close>

fun removeChain :: "string \<Rightarrow> hash_entry list \<Rightarrow> hash_entry list option" where
  "removeChain key [] = None"
| "removeChain key (current # next) =
     (if Key current = key then Some next else map_option (Cons current) (removeChain key next))"

definition HashTable_Remove :: "hash_table \<Rightarrow> string \<Rightarrow> hash_table \<times> bool" where
  "HashTable_Remove h key =
     (let index = nat (hashFunction h key)
      in case removeChain key (buckets h ! index) of
           Some chain \<Rightarrow> (h\<lparr>buckets := (buckets h)[index := chain], ht_size := ht_size h - 1\<rparr>, True)
         | None \<Rightarrow> (h, False))"

definition HashTable_GetSize :: "hash_table \<Rightarrow> nat" where
  "HashTable_GetSize h = ht_size h"

definition HashTable_IsEmpty :: "hash_table \<Rightarrow> bool" where
  "HashTable_IsEmpty h = (ht_size h = 0)"

definition HashTable_Cleanup :: "hash_table \<Rightarrow> hash_table" where
  "HashTable_Cleanup h = h\<lparr>buckets := foldl (\<lambda>bs i. bs[i := []]) (buckets h) [0..<capacity h], ht_size := 0\<rparr>"


section \<open>Abstraction and invariant\<close>

text \<open>
  \<open>ht_inv\<close> is what the code keeps true between calls: a positive capacity equal to
  the length of the bucket array, every entry in the bucket its key hashes to under the
  current capacity, no key twice in the table, and \<open>size\<close> equal to the number of
  entries. \<open>ht_abs\<close> reads the table as the map it represents: the entries of all
  chains in bucket-then-chain order (the order \<open>SerializeHashTable\<close> writes them).
\<close>
definition bucket_hashes :: "nat \<Rightarrow> hash_entry list list \<Rightarrow> bool" where
  "bucket_hashes cap bs \<longleftrightarrow>
     (\<forall>i < length bs. \<forall>e \<in> set (bs ! i). hashFunctionWithCapacity (Key e) cap = int i)"

definition ht_inv :: "hash_table \<Rightarrow> bool" where
  "ht_inv h \<longleftrightarrow>
     0 < capacity h \<and> length (buckets h) = capacity h \<and> bucket_hashes (capacity h) (buckets h) \<and>
     distinct (map Key (concat (buckets h))) \<and> ht_size h = length (concat (buckets h))"

definition entries_map :: "hash_entry list \<Rightarrow> string \<Rightarrow> string option" where
  "entries_map es = map_of (map (\<lambda>e. (Key e, Value e)) es)"

definition ht_abs :: "hash_table \<Rightarrow> string \<Rightarrow> string option" where
  "ht_abs h = entries_map (concat (buckets h))"

text \<open>
  The tables a handle can reach from \<open>NewHashTable\<close> through the operations that
  change it.
\<close>

inductive ht_reachable :: "hash_table \<Rightarrow> bool" where
  new: "ht_reachable (NewHashTable name)"
| insert: "ht_reachable h \<Longrightarrow> ht_reachable (HashTable_Insert h k v)"
| remove: "ht_reachable h \<Longrightarrow> ht_reachable (fst (HashTable_Remove h k))"
| cleanup: "ht_reachable h \<Longrightarrow> ht_reachable (HashTable_Cleanup h)"

section \<open>Hash function, resizing and the operations\<close>

lemma Insert_ht_name [simp]: "ht_name (HashTable_Insert h k v) = ht_name h"
  by (simp add: HashTable_Insert_def resize_def Let_def split: option.split)

lemma hashFunctionWithCapacity_bounds:
  "0 < cap \<Longrightarrow> 0 \<le> hashFunctionWithCapacity key cap \<and> hashFunctionWithCapacity key cap < int cap"
proof -
  assume cap: "0 < cap"
  define a where "a = sint (hashLoop 5381 key)"
  have "\<bar>a smod int cap\<bar> < int cap"
    using cap by (simp add: smod_int_alt_def abs_mult abs_sgn_eq)
  then show ?thesis
    by (auto simp: hashFunctionWithCapacity_def Let_def a_def [symmetric])
qed

lemma hashFunction_capacity: "hashFunction h key = hashFunctionWithCapacity key (capacity h)"
  by (simp add: hashFunction_def hashFunctionWithCapacity_def)

lemma nat_hash_less: "0 < cap \<Longrightarrow> nat (hashFunctionWithCapacity key cap) < cap"
  using hashFunctionWithCapacity_bounds [of cap key] by linarith

lemma int_nat_hash: "0 < cap \<Longrightarrow> int (nat (hashFunctionWithCapacity key cap)) = hashFunctionWithCapacity key cap"
  using hashFunctionWithCapacity_bounds [of cap key] by simp


lemma rehomeChain_length [simp]: "length (rehomeChain nc es nb) = length nb"
  by (induction es arbitrary: nb) (simp_all add: Let_def)

lemma rehomeChain_mset:
  "length nb = nc \<Longrightarrow> 0 < nc \<Longrightarrow>
   mset (concat (rehomeChain nc es nb)) = mset es + mset (concat nb)"
proof (induction es arbitrary: nb)
  case Nil
  then show ?case by simp
next
  case (Cons e es)
  define i where "i = nat (hashFunctionWithCapacity (Key e) nc)"
  have i: "i < length nb"
    using Cons.prems by (simp add: i_def nat_hash_less)
  have "mset (concat (nb[i := e # nb ! i])) = add_mset e (mset (concat nb))"
    using mset_concat_update [OF i, of "e # nb ! i"] by simp
  with Cons show ?case
    by (simp add: Let_def i_def [symmetric])
qed

lemma bucket_hashes_prepend:
  assumes "bucket_hashes nc nb" "i < length nb" "hashFunctionWithCapacity (Key e) nc = int i"
  shows "bucket_hashes nc (nb[i := e # nb ! i])"
  using assms by (auto simp: bucket_hashes_def nth_list_update)

lemma rehomeChain_hashes:
  "length nb = nc \<Longrightarrow> 0 < nc \<Longrightarrow> bucket_hashes nc nb \<Longrightarrow>
   bucket_hashes nc (rehomeChain nc es nb)"
proof (induction es arbitrary: nb)
  case Nil
  then show ?case by simp
next
  case (Cons e es)
  define i where "i = nat (hashFunctionWithCapacity (Key e) nc)"
  from Cons.prems have "bucket_hashes nc (nb[i := e # nb ! i])"
    by (intro bucket_hashes_prepend) (simp_all add: i_def nat_hash_less hashFunctionWithCapacity_bounds)
  with Cons show ?case
    by (simp add: Let_def i_def [symmetric])
qed

lemma rehome_all:
  assumes "length nb = nc" "0 < nc" "bucket_hashes nc nb"
  shows "length (foldl (\<lambda>nb ch. rehomeChain nc ch nb) nb chs) = nc \<and>
         mset (concat (foldl (\<lambda>nb ch. rehomeChain nc ch nb) nb chs)) = mset (concat chs) + mset (concat nb) \<and>
         bucket_hashes nc (foldl (\<lambda>nb ch. rehomeChain nc ch nb) nb chs)"
  using assms
proof (induction chs arbitrary: nb)
  case Nil
  then show ?case by simp
next
  case (Cons ch chs)
  then show ?case
    by (simp add: rehomeChain_mset rehomeChain_hashes ac_simps)
qed

lemma bucket_hashes_replicate [simp]: "bucket_hashes nc (replicate n [])"
  by (simp add: bucket_hashes_def)

lemma resize_buckets:
  assumes "length (buckets h) = capacity h"
  shows "buckets (resize h nc) = foldl (\<lambda>nb ch. rehomeChain nc ch nb) (replicate nc []) (buckets h)"
proof -
  have "map ((!) (buckets h)) [0..<capacity h] = buckets h"
    using assms map_nth [of "buckets h"] by simp
  then have "foldl (\<lambda>nb ch. rehomeChain nc ch nb) (replicate nc []) (buckets h) =
      foldl (\<lambda>nb ch. rehomeChain nc ch nb) (replicate nc []) (map ((!) (buckets h)) [0..<capacity h])"
    by simp
  then show ?thesis
    by (simp add: resize_def foldl_map)
qed

lemma resize_inv:
  assumes "ht_inv h" "0 < nc"
  shows "ht_inv (resize h nc) \<and> mset (concat (buckets (resize h nc))) = mset (concat (buckets h)) \<and>
         capacity (resize h nc) = nc"
proof -
  from assms have len: "length (buckets h) = capacity h" by (simp add: ht_inv_def)
  from rehome_all [of "replicate nc []" nc "buckets h"] assms(2)
  have r: "length (buckets (resize h nc)) = nc"
     "mset (concat (buckets (resize h nc))) = mset (concat (buckets h))"
     "bucket_hashes nc (buckets (resize h nc))"
    by (simp_all add: resize_buckets [OF len])
  have "mset (map Key (concat (buckets (resize h nc)))) = mset (map Key (concat (buckets h)))"
    by (simp add: r(2))
  then have "distinct (map Key (concat (buckets (resize h nc)))) = distinct (map Key (concat (buckets h)))"
    by (rule mset_eq_imp_distinct_iff)
  moreover have "length (concat (buckets (resize h nc))) = length (concat (buckets h))"
    using r(2) by (metis size_mset)
  ultimately show ?thesis
    using assms r by (simp add: ht_inv_def resize_def)
qed

subsection \<open>Chains as maps\<close>

lemma entries_map_Cons [simp]:
  "entries_map (e # es) = (entries_map es)(Key e \<mapsto> Value e)"
  by (simp add: entries_map_def)

lemma entries_map_Nil [simp]: "entries_map [] = Map.empty"
  by (simp add: entries_map_def)

lemma entries_map_Some:
  "distinct (map Key es) \<Longrightarrow> entries_map es k = Some v \<longleftrightarrow> (\<exists>e\<in>set es. Key e = k \<and> Value e = v)"
  by (induction es) (auto simp: image_iff)

lemma entries_map_None: "entries_map es k = None \<longleftrightarrow> k \<notin> Key ` set es"
  by (induction es) auto

lemma entries_map_mset:
  assumes "mset xs = mset ys" "distinct (map Key xs)"
  shows "entries_map xs = entries_map ys"
proof
  fix k
  from assms have dy: "distinct (map Key ys)"
    by (metis mset_eq_imp_distinct_iff mset_map)
  from assms(1) have set: "set xs = set ys"
    by (metis set_mset_mset)
  show "entries_map xs k = entries_map ys k"
  proof (cases "entries_map xs k")
    case None
    with set have "entries_map ys k = None" by (simp add: entries_map_None)
    with None show ?thesis by simp
  next
    case (Some v)
    with assms(2) set have "\<exists>e\<in>set ys. Key e = k \<and> Value e = v"
      by (simp add: entries_map_Some)
    then have "entries_map ys k = Some v" by (simp add: entries_map_Some [OF dy])
    with Some show ?thesis by simp
  qed
qed

lemma searchChain_entries_map:
  "searchChain k es = (case entries_map es k of None \<Rightarrow> ('''', False) | Some v \<Rightarrow> (v, True))"
  by (induction es) auto

lemma updateChain_None: "updateChain k v es = None \<longleftrightarrow> k \<notin> Key ` set es"
  by (induction es) auto

lemma updateChain_Some:
  "updateChain k v es = Some es' \<Longrightarrow>
   map Key es' = map Key es \<and> entries_map es' = (entries_map es)(k \<mapsto> v)"
  by (induction es arbitrary: es') (auto simp: fun_upd_twist split: if_splits)

lemma removeChain_None: "removeChain k es = None \<longleftrightarrow> k \<notin> Key ` set es"
  by (induction es) auto

lemma removeChain_Some:
  "removeChain k es = Some es' \<Longrightarrow> distinct (map Key es) \<Longrightarrow>
   (\<exists>e. Key e = k \<and> mset es = add_mset e (mset es')) \<and> entries_map es' = (entries_map es)(k := None)"
proof (induction es arbitrary: es')
  case Nil
  then show ?case by simp
next
  case (Cons c es)
  show ?case
  proof (cases "Key c = k")
    case True
    with Cons.prems have "es' = es" "k \<notin> Key ` set es" by auto
    then show ?thesis
      using True by (auto simp: entries_map_None [symmetric])
  next
    case False
    with Cons.prems obtain es'' where "removeChain k es = Some es''" "es' = c # es''"
      by auto
    with Cons False show ?thesis
      by (fastforce simp: fun_upd_twist)
  qed
qed

subsection \<open>The table as a map\<close>

lemma ht_inv_index:
  "ht_inv h \<Longrightarrow> nat (hashFunctionWithCapacity k (capacity h)) < length (buckets h)"
  by (simp add: ht_inv_def nat_hash_less)

lemma ht_inv_bucket_of:
  assumes "ht_inv h" "e \<in> set (concat (buckets h))"
  shows "e \<in> set (buckets h ! nat (hashFunctionWithCapacity (Key e) (capacity h)))"
proof -
  from assms(2) obtain ch where "ch \<in> set (buckets h)" "e \<in> set ch"
    by auto
  then obtain j where j: "j < length (buckets h)" "e \<in> set (buckets h ! j)"
    by (metis in_set_conv_nth)
  with assms(1) have "hashFunctionWithCapacity (Key e) (capacity h) = int j"
    by (auto simp: ht_inv_def bucket_hashes_def)
  with j show ?thesis by simp
qed

lemma distinct_bucket:
  "i < length bs \<Longrightarrow> distinct (map Key (concat bs)) \<Longrightarrow> distinct (map Key (bs ! i))"
  by (subst (asm) concat_nth_split) auto

lemma ht_abs_bucket:
  assumes "ht_inv h"
  shows "ht_abs h k = entries_map (buckets h ! nat (hashFunctionWithCapacity k (capacity h))) k"
proof -
  define i where "i = nat (hashFunctionWithCapacity k (capacity h))"
  from assms have i: "i < length (buckets h)" by (simp add: i_def ht_inv_index)
  from assms have dc: "distinct (map Key (concat (buckets h)))" by (simp add: ht_inv_def)
  with i have db: "distinct (map Key (buckets h ! i))" by (rule distinct_bucket)
  have same: "e \<in> set (concat (buckets h)) \<and> Key e = k \<longleftrightarrow> e \<in> set (buckets h ! i) \<and> Key e = k" for e
    using ht_inv_bucket_of [OF assms, of e] i by (auto simp: i_def)
  show ?thesis
  proof (cases "entries_map (buckets h ! i) k")
    case None
    have "k \<notin> Key ` set (concat (buckets h))"
    proof
      assume "k \<in> Key ` set (concat (buckets h))"
      then obtain e where "e \<in> set (concat (buckets h))" "Key e = k" by blast
      with same have "k \<in> Key ` set (buckets h ! i)" by blast
      with None show False by (simp add: entries_map_None)
    qed
    then have "ht_abs h k = None" by (simp add: ht_abs_def entries_map_None)
    with None show ?thesis by (simp add: i_def)
  next
    case (Some v)
    with db same have "\<exists>e\<in>set (concat (buckets h)). Key e = k \<and> Value e = v"
      by (auto simp: entries_map_Some)
    then have "ht_abs h k = Some v"
      unfolding ht_abs_def by (simp only: entries_map_Some [OF dc])
    with Some show ?thesis by (simp add: i_def)
  qed
qed

subsection \<open>Operations on the table\<close>

lemma ht_inv_key_absent:
  assumes "ht_inv h" "k \<notin> Key ` set (buckets h ! nat (hashFunctionWithCapacity k (capacity h)))"
  shows "k \<notin> Key ` set (concat (buckets h))"
proof
  assume "k \<in> Key ` set (concat (buckets h))"
  then obtain e where "e \<in> set (concat (buckets h))" "Key e = k" by blast
  with ht_inv_bucket_of [OF assms(1)] assms(2) show False by blast
qed

lemma ht_inv_update_bucket:
  assumes "ht_inv h" "i < length (buckets h)"
    and "\<forall>e\<in>set ch. hashFunctionWithCapacity (Key e) (capacity h) = int i"
    and "distinct (map Key (concat ((buckets h)[i := ch])))"
    and "n = length (concat ((buckets h)[i := ch]))"
  shows "ht_inv (h\<lparr>buckets := (buckets h)[i := ch], ht_size := n\<rparr>)"
  using assms by (auto simp: ht_inv_def bucket_hashes_def nth_list_update)

lemma ht_abs_update_bucket:
  assumes "ht_inv h" "ht_inv h'" "capacity h' = capacity h"
    and "buckets h' = (buckets h)[i := ch]"
    and "i = nat (hashFunctionWithCapacity k (capacity h))"
    and "entries_map ch = (entries_map (buckets h ! i))(k := x)"
  shows "ht_abs h' = (ht_abs h)(k := x)"
proof
  fix k'
  define j where "j = nat (hashFunctionWithCapacity k' (capacity h))"
  have i: "i < length (buckets h)"
    using assms(1,5) by (simp add: ht_inv_index)
  have abs': "ht_abs h' k' = entries_map (buckets h' ! j) k'"
    using ht_abs_bucket [OF assms(2), of k'] assms(3) by (simp add: j_def)
  have abs: "ht_abs h k' = entries_map (buckets h ! j) k'"
    using ht_abs_bucket [OF assms(1), of k'] by (simp add: j_def)
  show "ht_abs h' k' = ((ht_abs h)(k := x)) k'"
  proof (cases "j = i")
    case True
    with abs abs' assms(4,6) i show ?thesis by simp
  next
    case False
    with assms(5) have "k' \<noteq> k" by (auto simp: j_def)
    with False abs abs' assms(4) show ?thesis by simp
  qed
qed

lemma resize_abs:
  assumes "ht_inv h" "0 < nc"
  shows "ht_abs (resize h nc) = ht_abs h"
  unfolding ht_abs_def
proof (rule entries_map_mset)
  show "mset (concat (buckets (resize h nc))) = mset (concat (buckets h))"
    using resize_inv [OF assms] by simp
  show "distinct (map Key (concat (buckets (resize h nc))))"
    using resize_inv [OF assms] by (simp add: ht_inv_def)
qed

lemma Insert_inv_abs:
  assumes "ht_inv h"
  shows "ht_inv (HashTable_Insert h k v) \<and> ht_abs (HashTable_Insert h k v) = (ht_abs h)(k \<mapsto> v) \<and>
         capacity (HashTable_Insert h k v) \<in> {capacity h, 2 * capacity h}"
proof -
  define h1 where "h1 = (if loadThreshold (capacity h) \<le> ht_size h then resize h (capacity h * 2) else h)"
  from assms have inv1: "ht_inv h1" and abs1: "ht_abs h1 = ht_abs h"
    and cap1: "capacity h1 \<in> {capacity h, 2 * capacity h}"
    using resize_inv [of h "capacity h * 2"] resize_abs [of h "capacity h * 2"]
    by (auto simp: h1_def ht_inv_def)
  define i where "i = nat (hashFunction h1 k)"
  have i_eq: "i = nat (hashFunctionWithCapacity k (capacity h1))"
    by (simp add: i_def hashFunction_capacity)
  have i: "i < length (buckets h1)"
    using inv1 by (simp add: i_eq ht_inv_index)
  have hash_i: "hashFunctionWithCapacity k (capacity h1) = int i"
    using inv1 by (simp add: i_eq ht_inv_def hashFunctionWithCapacity_bounds)
  have dc: "distinct (map Key (concat (buckets h1)))"
    using inv1 by (simp add: ht_inv_def)
  have hs: "\<forall>e\<in>set (buckets h1 ! i). hashFunctionWithCapacity (Key e) (capacity h1) = int i"
    using inv1 i by (simp add: ht_inv_def bucket_hashes_def)
  have msets: "mset (concat ((buckets h1)[i := ch])) + mset (buckets h1 ! i) =
      mset (concat (buckets h1)) + mset ch" for ch
    using i by (rule mset_concat_update)
  show ?thesis
  proof (cases "updateChain k v (buckets h1 ! i)")
    case None
    define e where "e = \<lparr>Key = k, Value = v\<rparr>"
    define h2 where "h2 = h1\<lparr>buckets := (buckets h1)[i := e # buckets h1 ! i], ht_size := ht_size h1 + 1\<rparr>"
    have ins: "HashTable_Insert h k v = h2"
      unfolding HashTable_Insert_def Let_def h1_def [symmetric] i_def [symmetric]
      using None by (simp add: h2_def e_def)
    have m: "mset (concat ((buckets h1)[i := e # buckets h1 ! i])) = add_mset e (mset (concat (buckets h1)))"
      using msets [of "e # buckets h1 ! i"] by simp
    have absent: "k \<notin> set (map Key (concat (buckets h1)))"
      using ht_inv_key_absent [OF inv1, of k] None by (simp add: updateChain_None i_eq)
    have mk: "mset (map Key (concat ((buckets h1)[i := e # buckets h1 ! i]))) =
        add_mset k (mset (map Key (concat (buckets h1))))"
      using arg_cong [OF m, of "image_mset Key"] by (simp add: e_def)
    have dist2: "distinct (map Key (concat ((buckets h1)[i := e # buckets h1 ! i])))"
      using mk dc absent by (rule distinct_add_mset)
    have size2: "ht_size h1 + 1 = length (concat ((buckets h1)[i := e # buckets h1 ! i]))"
      using arg_cong [OF m, of size] inv1 by (simp add: ht_inv_def)
    have inv2: "ht_inv h2"
      unfolding h2_def
      by (rule ht_inv_update_bucket [OF inv1 i _ dist2 size2]) (use hs hash_i in \<open>simp add: e_def\<close>)
    have "ht_abs h2 = (ht_abs h1)(k := Some v)"
      by (rule ht_abs_update_bucket [OF inv1 inv2, where i = i and ch = "e # buckets h1 ! i"])
         (simp_all add: h2_def e_def i_eq)
    with inv2 ins abs1 cap1 show ?thesis by (simp add: h2_def)
  next
    case (Some ch)
    define h2 where "h2 = h1\<lparr>buckets := (buckets h1)[i := ch], ht_size := ht_size h1\<rparr>"
    have ins: "HashTable_Insert h k v = h2"
      unfolding HashTable_Insert_def Let_def h1_def [symmetric] i_def [symmetric]
      using Some by (simp add: h2_def)
    from Some have keys: "map Key ch = map Key (buckets h1 ! i)"
      and em: "entries_map ch = (entries_map (buckets h1 ! i))(k \<mapsto> v)"
      by (simp_all add: updateChain_Some)
    have "mset (map Key (concat ((buckets h1)[i := ch]))) + mset (map Key (buckets h1 ! i)) =
        mset (map Key (concat (buckets h1))) + mset (map Key ch)"
      using arg_cong [OF msets [of ch], of "image_mset Key"] by simp
    then have mk: "mset (map Key (concat ((buckets h1)[i := ch]))) = mset (map Key (concat (buckets h1)))"
      using keys by simp
    have dist2: "distinct (map Key (concat ((buckets h1)[i := ch])))"
      using mset_eq_imp_distinct_iff [OF mk] dc by simp
    have size2: "ht_size h1 = length (concat ((buckets h1)[i := ch]))"
      using arg_cong [OF mk, of size] inv1 by (simp add: ht_inv_def)
    have "\<forall>e\<in>set ch. hashFunctionWithCapacity (Key e) (capacity h1) = int i"
    proof
      fix e
      assume "e \<in> set ch"
      then have "Key e \<in> set (map Key (buckets h1 ! i))"
        unfolding keys [symmetric] by simp
      then obtain e' where "e' \<in> set (buckets h1 ! i)" "Key e' = Key e"
        by auto
      with hs show "hashFunctionWithCapacity (Key e) (capacity h1) = int i"
        by auto
    qed
    then have inv2: "ht_inv h2"
      unfolding h2_def by (rule ht_inv_update_bucket [OF inv1 i _ dist2 size2])
    have "ht_abs h2 = (ht_abs h1)(k := Some v)"
      by (rule ht_abs_update_bucket [OF inv1 inv2, where i = i and ch = ch])
         (simp_all add: h2_def i_eq em)
    with inv2 ins abs1 cap1 show ?thesis by (simp add: h2_def)
  qed
qed

lemma Search_abs:
  "ht_inv h \<Longrightarrow> HashTable_Search h k = (case ht_abs h k of None \<Rightarrow> ('''', False) | Some v \<Rightarrow> (v, True))"
  by (simp add: HashTable_Search_def searchChain_entries_map ht_abs_bucket hashFunction_capacity)

lemma Remove_inv_abs:
  assumes "ht_inv h" "HashTable_Remove h k = (h', b)"
  shows "ht_inv h' \<and> ht_abs h' = (ht_abs h)(k := None) \<and> b = (ht_abs h k \<noteq> None) \<and>
         capacity h' = capacity h"
proof -
  define i where "i = nat (hashFunction h k)"
  have i_eq: "i = nat (hashFunctionWithCapacity k (capacity h))"
    by (simp add: i_def hashFunction_capacity)
  have i: "i < length (buckets h)"
    using assms(1) by (simp add: i_eq ht_inv_index)
  have dc: "distinct (map Key (concat (buckets h)))"
    using assms(1) by (simp add: ht_inv_def)
  have abs_k: "ht_abs h k = entries_map (buckets h ! i) k"
    using ht_abs_bucket [OF assms(1)] by (simp add: i_eq)
  show ?thesis
  proof (cases "removeChain k (buckets h ! i)")
    case None
    then have "h' = h" "b = False"
      using assms(2) unfolding HashTable_Remove_def Let_def i_def [symmetric] by simp_all
    moreover have "ht_abs h k = None"
      using None abs_k by (simp add: removeChain_None entries_map_None)
    ultimately show ?thesis
      using assms(1) by (simp add: fun_upd_idem)
  next
    case (Some ch)
    define h2 where "h2 = h\<lparr>buckets := (buckets h)[i := ch], ht_size := ht_size h - 1\<rparr>"
    have res: "h' = h2" "b = True"
      using Some assms(2) unfolding HashTable_Remove_def Let_def i_def [symmetric] by (simp_all add: h2_def)
    from Some distinct_bucket [OF i dc] obtain e where e: "Key e = k" "mset (buckets h ! i) = add_mset e (mset ch)"
      and em: "entries_map ch = (entries_map (buckets h ! i))(k := None)"
      using removeChain_Some by blast
    have "mset (concat ((buckets h)[i := ch])) + mset (buckets h ! i) = mset (concat (buckets h)) + mset ch"
      using i by (rule mset_concat_update)
    with e have m: "mset (concat (buckets h)) = add_mset e (mset (concat ((buckets h)[i := ch])))"
      by simp
    have mk: "mset (map Key (concat (buckets h))) = add_mset k (mset (map Key (concat ((buckets h)[i := ch]))))"
      using arg_cong [OF m, of "image_mset Key"] e(1) by simp
    have dist2: "distinct (map Key (concat ((buckets h)[i := ch])))"
      using mk dc by (rule distinct_del_mset)
    have size2: "ht_size h - 1 = length (concat ((buckets h)[i := ch]))"
      using arg_cong [OF m, of size] assms(1) by (simp add: ht_inv_def)
    have "set ch \<subseteq> set (buckets h ! i)"
      using e(2) by (metis set_mset_mset set_mset_add_mset_insert subset_insertI)
    then have "\<forall>e\<in>set ch. hashFunctionWithCapacity (Key e) (capacity h) = int i"
      using assms(1) i by (auto simp: ht_inv_def bucket_hashes_def)
    then have inv2: "ht_inv h2"
      unfolding h2_def by (rule ht_inv_update_bucket [OF assms(1) i _ dist2 size2])
    have "ht_abs h2 = (ht_abs h)(k := None)"
      by (rule ht_abs_update_bucket [OF assms(1) inv2, where i = i and ch = ch])
         (simp_all add: h2_def i_eq em)
    moreover have "ht_abs h k \<noteq> None"
      using e abs_k by (metis entries_map_None image_eqI set_mset_add_mset_insert set_mset_mset insertI1)
    ultimately show ?thesis
      using inv2 res by (simp add: h2_def)
  qed
qed

lemma clear_buckets:
  "m \<le> length bs \<Longrightarrow> foldl (\<lambda>bs i. bs[i := []]) bs [0..<m] = replicate m [] @ drop m bs"
proof (induction m)
  case 0
  then show ?case by simp
next
  case (Suc m)
  then have "(replicate m [] @ drop m bs)[m := []] = replicate (Suc m) [] @ drop (Suc m) bs"
    by (simp add: list_update_append Cons_nth_drop_Suc [symmetric] replicate_append_same)
  with Suc show ?case by simp
qed

lemma Cleanup_inv_abs:
  assumes "ht_inv h"
  shows "ht_inv (HashTable_Cleanup h) \<and> ht_abs (HashTable_Cleanup h) = Map.empty \<and> capacity (HashTable_Cleanup h) = capacity h"
proof -
  from assms have "buckets (HashTable_Cleanup h) = replicate (capacity h) []"
    using clear_buckets [of "capacity h" "buckets h"] by (simp add: HashTable_Cleanup_def ht_inv_def)
  with assms show ?thesis
    by (simp add: ht_inv_def HashTable_Cleanup_def ht_abs_def)
qed

lemma ht_size_card:
  assumes "ht_inv h"
  shows "ht_size h = card (dom (ht_abs h))"
proof -
  have "dom (ht_abs h) = set (map Key (concat (buckets h)))"
    by (simp add: ht_abs_def entries_map_def dom_map_of_conv_image_fst image_image)
  moreover have "card (set (map Key (concat (buckets h)))) = length (concat (buckets h))"
    using assms distinct_card [of "map Key (concat (buckets h))"] by (simp only: ht_inv_def length_map)
  ultimately show ?thesis
    using assms by (simp only: ht_inv_def)
qed

lemma capacity_Insert:
  "capacity (HashTable_Insert h k v) =
     (if loadThreshold (capacity h) \<le> ht_size h then capacity h * 2 else capacity h)"
  by (simp add: HashTable_Insert_def Let_def resize_def split: option.split)

lemma size_Insert:
  assumes "ht_inv h"
  shows "ht_size (HashTable_Insert h k v) \<le> ht_size h + 1"
proof -
  from assms have "ht_size (HashTable_Insert h k v) = card (insert k (dom (ht_abs h)))"
    using Insert_inv_abs [OF assms, of k v] ht_size_card by simp
  also have "\<dots> \<le> card (dom (ht_abs h)) + 1"
    by (simp add: card_insert_le_m1 ht_abs_def entries_map_def finite_dom_map_of card_insert_if)
  finally show ?thesis
    using ht_size_card [OF assms] by simp
qed

lemma size_Remove:
  assumes "ht_inv h"
  shows "ht_size (fst (HashTable_Remove h k)) \<le> ht_size h"
proof -
  obtain h' b where r: "HashTable_Remove h k = (h', b)" by fastforce
  with Remove_inv_abs [OF assms r] have "ht_size h' = card (dom (ht_abs h) - {k})"
    using ht_size_card by simp
  also have "\<dots> \<le> card (dom (ht_abs h))"
    by (simp add: card_Diff1_le ht_abs_def entries_map_def finite_dom_map_of)
  finally show ?thesis
    using r ht_size_card [OF assms] by simp
qed

lemma load_after_Insert:
  assumes "10 * ht_size h \<le> 7 * capacity h" "10 \<le> capacity h" "ht_size (HashTable_Insert h k v) \<le> ht_size h + 1"
  shows "10 * ht_size (HashTable_Insert h k v) \<le> 7 * capacity (HashTable_Insert h k v)"
proof (cases "loadThreshold (capacity h) \<le> ht_size h")
  case True
  with assms show ?thesis by (simp add: capacity_Insert)
next
  case False
  then have "10 * (ht_size h + 1) \<le> 7 * capacity h"
    by (simp add: loadThreshold_def)
  with assms False show ?thesis by (simp add: capacity_Insert)
qed

lemma ht_reachable_inv:
  "ht_reachable h \<Longrightarrow> ht_inv h \<and> 10 * ht_size h \<le> 7 * capacity h \<and> (\<exists>j. capacity h = 10 * 2 ^ j)"
proof (induction rule: ht_reachable.induct)
  case (new name)
  have "capacity (NewHashTable name) = 10 * 2 ^ 0" by (simp add: NewHashTable_def)
  then show ?case
    by (auto simp: NewHashTable_def ht_inv_def bucket_hashes_def simp del: power_0)
next
  case (insert h k v)
  then obtain j where j: "capacity h = 10 * 2 ^ j" by blast
  then have cap10: "10 \<le> capacity h" by simp
  have "capacity (HashTable_Insert h k v) = 10 * 2 ^ Suc j \<or> capacity (HashTable_Insert h k v) = 10 * 2 ^ j"
    using j by (simp add: capacity_Insert)
  moreover have "10 * ht_size (HashTable_Insert h k v) \<le> 7 * capacity (HashTable_Insert h k v)"
    by (rule load_after_Insert) (use insert cap10 size_Insert in auto)
  ultimately show ?case
    using Insert_inv_abs insert by blast
next
  case (remove h k)
  obtain h' b where r: "HashTable_Remove h k = (h', b)" by fastforce
  with remove Remove_inv_abs [of h k h' b] size_Remove [of h k] show ?case
    by auto
next
  case (cleanup h)
  with Cleanup_inv_abs [of h] show ?case
    by (simp add: HashTable_Cleanup_def)
qed

lemma fold_upd_map_add:
  "fold (\<lambda>(k, v) m. m(k \<mapsto> v)) kvs m = m ++ map_of (rev kvs)"
  by (induction kvs arbitrary: m) auto

lemma map_of_rev_distinct:
  "distinct (map fst kvs) \<Longrightarrow> map_of (rev kvs) = map_of kvs"
  by (rule map_of_inject_set [THEN iffD2]) (simp_all add: rev_map [symmetric])

lemma fold_Insert:
  "ht_reachable h \<Longrightarrow>
   ht_reachable (fold (\<lambda>(k, v) h. HashTable_Insert h k v) kvs h) \<and>
   ht_abs (fold (\<lambda>(k, v) h. HashTable_Insert h k v) kvs h) = fold (\<lambda>(k, v) m. m(k \<mapsto> v)) kvs (ht_abs h)"
proof (induction kvs arbitrary: h)
  case Nil
  then show ?case by simp
next
  case (Cons kv kvs)
  obtain k v where kv: "kv = (k, v)" by fastforce
  from Cons.prems have "ht_reachable (HashTable_Insert h k v)" by (rule ht_reachable.insert)
  moreover have "ht_abs (HashTable_Insert h k v) = (ht_abs h)(k \<mapsto> v)"
    using Cons.prems ht_reachable_inv Insert_inv_abs by blast
  ultimately show ?case
    using Cons.IH [of "HashTable_Insert h k v"] kv by simp
qed

lemma example_table_reachable:
  "ht_reachable (HashTable_Insert (HashTable_Insert (NewHashTable ''h'') ''a'' ''1'') ''k'' ''2'')"
  by (rule ht_reachable.insert [OF ht_reachable.insert [OF ht_reachable.new]])

section \<open>Properties of the hash table\<close>

text \<open>
  C2. Insertion refines map update: on a reachable table, \<open>HashTable_Insert h k v\<close> maps \<open>k\<close>
  to \<open>v\<close> and leaves every other key as it was, whether the key was new (a prepended
  entry), present (its value replaced in place) or a resize happened first.
\<close>

theorem Insert_refines:
  "ht_reachable h \<Longrightarrow> ht_abs (HashTable_Insert h k v) = (ht_abs h)(k \<mapsto> v)"
  using ht_reachable_inv Insert_inv_abs by blast

theorem Insert_refines_witness:
  "ht_abs (HashTable_Insert (HashTable_Insert (HashTable_Insert (NewHashTable ''h'') ''a'' ''1'') ''k'' ''2'') ''a'' ''3'') =
   (ht_abs (HashTable_Insert (HashTable_Insert (NewHashTable ''h'') ''a'' ''1'') ''k'' ''2''))(''a'' \<mapsto> ''3'')"
  by (rule Insert_refines [OF example_table_reachable])

text \<open>
  C5. HashTable_Search is map lookup: on a reachable table, \<open>HashTable_Search h k\<close> returns the value and
  \<open>True\<close> when the table maps \<open>k\<close>, and \<open>("", False)\<close> otherwise.
\<close>

theorem Search_refines:
  "ht_reachable h \<Longrightarrow>
   HashTable_Search h k = (case ht_abs h k of None \<Rightarrow> ('''', False) | Some v \<Rightarrow> (v, True))"
  using ht_reachable_inv Search_abs by blast

theorem Search_refines_witness:
  "HashTable_Search (HashTable_Insert (HashTable_Insert (NewHashTable ''h'') ''a'' ''1'') ''k'' ''2'') ''k'' =
   (case ht_abs (HashTable_Insert (HashTable_Insert (NewHashTable ''h'') ''a'' ''1'') ''k'' ''2'') ''k'' of
      None \<Rightarrow> ('''', False) | Some v \<Rightarrow> (v, True))"
  by (rule Search_refines [OF example_table_reachable])

text \<open>
  C6. Removal refines map deletion: on a reachable table, \<open>HashTable_Remove h k\<close> unmaps \<open>k\<close>,
  leaves every other key as it was, and reports whether \<open>k\<close> was mapped.
\<close>

theorem Remove_refines:
  "ht_reachable h \<Longrightarrow>
   ht_abs (fst (HashTable_Remove h k)) = (ht_abs h)(k := None) \<and> snd (HashTable_Remove h k) = (k \<in> dom (ht_abs h))"
  using ht_reachable_inv Remove_inv_abs [of h k "fst (HashTable_Remove h k)" "snd (HashTable_Remove h k)"] by auto

theorem Remove_refines_witness:
  "ht_abs (fst (HashTable_Remove (HashTable_Insert (HashTable_Insert (NewHashTable ''h'') ''a'' ''1'') ''k'' ''2'') ''a'')) =
     (ht_abs (HashTable_Insert (HashTable_Insert (NewHashTable ''h'') ''a'' ''1'') ''k'' ''2''))(''a'' := None)"
  using Remove_refines [OF example_table_reachable, of "''a''"] by blast

text \<open>
  C7. Structure and load factor: every reachable table has a positive capacity of the
  form \<open>10 * 2 ^ j\<close> equal to its number of buckets, every entry in the bucket its key
  hashes to, no key twice, \<open>size\<close> equal to the number of entries, and
  \<open>size \<le> 0.7 * capacity\<close>.
\<close>

theorem reachable_table_invariant:
  "ht_reachable h \<Longrightarrow> ht_inv h \<and> 10 * ht_size h \<le> 7 * capacity h \<and> (\<exists>j. capacity h = 10 * 2 ^ j)"
  by (rule ht_reachable_inv)

theorem reachable_table_invariant_witness:
  "ht_inv (HashTable_Insert (HashTable_Insert (NewHashTable ''h'') ''a'' ''1'') ''k'' ''2'') \<and>
   10 * ht_size (HashTable_Insert (HashTable_Insert (NewHashTable ''h'') ''a'' ''1'') ''k'' ''2'') \<le>
     7 * capacity (HashTable_Insert (HashTable_Insert (NewHashTable ''h'') ''a'' ''1'') ''k'' ''2'')"
  using reachable_table_invariant [OF example_table_reachable] by blast

text \<open>
  C8. Resizing rehomes every entry exactly once: on a well-formed table and a positive
  new capacity, \<open>resize\<close> yields a well-formed table of that capacity whose entries are
  the old ones (the same multiset), so the map it represents is unchanged.
\<close>

theorem resize_preserves_entries:
  "ht_inv h \<Longrightarrow> 0 < nc \<Longrightarrow>
   mset (concat (buckets (resize h nc))) = mset (concat (buckets h)) \<and>
   ht_inv (resize h nc) \<and> ht_abs (resize h nc) = ht_abs h \<and> capacity (resize h nc) = nc"
  using resize_inv resize_abs by blast

theorem resize_preserves_entries_witness:
  "ht_abs (resize (HashTable_Insert (NewHashTable ''h'') ''a'' ''1'') 20) =
   ht_abs (HashTable_Insert (NewHashTable ''h'') ''a'' ''1'')"
proof -
  have "ht_inv (HashTable_Insert (NewHashTable ''h'') ''a'' ''1'')"
    using ht_reachable_inv [OF ht_reachable.insert [OF ht_reachable.new]] by blast
  then show ?thesis
    using resize_preserves_entries [of "HashTable_Insert (NewHashTable ''h'') ''a'' ''1''" 20] by simp
qed

text \<open>
  C10. Bucket index in range: for every positive capacity the index the hash function
  computes lies in \<open>[0, capacity)\<close>, also when the 64-bit hash has wrapped to a
  negative value; \<open>hashFunction\<close> computes the same index as
  \<open>hashFunctionWithCapacity\<close> at the table's capacity, so lookup and rehoming use one
  function. The negation acts on the remainder, whose magnitude is below the capacity,
  so it cannot overflow.
\<close>

theorem hash_index_in_range:
  "0 < capacity h \<Longrightarrow>
   0 \<le> hashFunction h key \<and> hashFunction h key < int (capacity h) \<and>
   hashFunction h key = hashFunctionWithCapacity key (capacity h)"
  using hashFunctionWithCapacity_bounds [of "capacity h" key] by (simp add: hashFunction_capacity)

theorem hash_index_in_range_witness:
  "sint (hashLoop 5381 ''abcdefghijklm'') < 0 \<and> hashFunction (NewHashTable ''h'') ''abcdefghijklm'' = 6 \<and>
   hashFunction (NewHashTable ''h'') ''abcdefghijklm'' < int (capacity (NewHashTable ''h''))"
proof -
  have "sint (hashLoop 5381 ''abcdefghijklm'') < 0 \<and> hashFunction (NewHashTable ''h'') ''abcdefghijklm'' = 6"
    by code_simp
  moreover have "hashFunction (NewHashTable ''h'') ''abcdefghijklm'' < int (capacity (NewHashTable ''h''))"
    using hash_index_in_range [of "NewHashTable ''h''" "''abcdefghijklm''"]
    by (simp add: NewHashTable_def)
  ultimately show ?thesis by blast
qed

text \<open>
  C12. Size: on a reachable table \<open>HashTable_GetSize\<close> is the number of keys mapped and
  \<open>HashTable_IsEmpty\<close> holds exactly when no key is mapped.
\<close>

theorem size_counts_keys:
  "ht_reachable h \<Longrightarrow> HashTable_GetSize h = card (dom (ht_abs h)) \<and> (HashTable_IsEmpty h \<longleftrightarrow> ht_abs h = Map.empty)"
  using ht_reachable_inv [of h] ht_size_card [of h]
  by (auto simp: HashTable_GetSize_def HashTable_IsEmpty_def ht_abs_def entries_map_def finite_dom_map_of)

theorem size_counts_keys_witness:
  "HashTable_GetSize (HashTable_Insert (HashTable_Insert (NewHashTable ''h'') ''a'' ''1'') ''k'' ''2'') = 2 \<and>
   card (dom (ht_abs (HashTable_Insert (HashTable_Insert (NewHashTable ''h'') ''a'' ''1'') ''k'' ''2''))) = 2"
proof -
  have "HashTable_GetSize (HashTable_Insert (HashTable_Insert (NewHashTable ''h'') ''a'' ''1'') ''k'' ''2'') = 2"
    by code_simp
  then show ?thesis
    using size_counts_keys [OF example_table_reachable] by simp
qed

text \<open>
  Empty state: a new or cleared table maps no key, has size 0 and is empty; a
  cleared table keeps its capacity; searching it finds nothing and removing from it
  reports \<open>False\<close>.
\<close>

theorem empty_table_contract:
  "ht_reachable h \<Longrightarrow>
   ht_abs (HashTable_Cleanup h) = Map.empty \<and> HashTable_GetSize (HashTable_Cleanup h) = 0 \<and> HashTable_IsEmpty (HashTable_Cleanup h) \<and>
   capacity (HashTable_Cleanup h) = capacity h \<and> HashTable_Search (HashTable_Cleanup h) k = ('''', False) \<and>
   snd (HashTable_Remove (HashTable_Cleanup h) k) = False \<and>
   ht_abs (NewHashTable n) = Map.empty \<and> HashTable_GetSize (NewHashTable n) = 0 \<and> HashTable_IsEmpty (NewHashTable n)"
proof -
  assume "ht_reachable h"
  then have inv: "ht_inv h" using ht_reachable_inv by blast
  then have c: "ht_inv (HashTable_Cleanup h)" "ht_abs (HashTable_Cleanup h) = Map.empty" "capacity (HashTable_Cleanup h) = capacity h"
    using Cleanup_inv_abs by blast+
  have r: "snd (HashTable_Remove (HashTable_Cleanup h) k) = (ht_abs (HashTable_Cleanup h) k \<noteq> None)"
    using Remove_inv_abs [OF c(1), of k "fst (HashTable_Remove (HashTable_Cleanup h) k)" "snd (HashTable_Remove (HashTable_Cleanup h) k)"]
    by simp
  show ?thesis
    using c r Search_abs [OF c(1), of k]
    by (simp add: HashTable_Cleanup_def HashTable_GetSize_def HashTable_IsEmpty_def NewHashTable_def ht_abs_def)
qed

theorem empty_table_contract_witness:
  "HashTable_Search (HashTable_Cleanup (HashTable_Insert (NewHashTable ''h'') ''a'' ''1'')) ''a'' = ('''', False)"
  using empty_table_contract [OF ht_reachable.insert [OF ht_reachable.new], of "''h''" "''a''" "''1''"]
  by blast

text \<open>
  The scenarios of the specification: inserting ("k", "v1") then ("k", "v2") leaves
  size 1 and finds "v2"; "a" and "k" hash to the same bucket of a new table and both stay
  findable, also after one of them is removed.
\<close>

theorem spec_table_scenarios:
  "HashTable_GetSize (HashTable_Insert (HashTable_Insert (NewHashTable ''h'') ''k'' ''v1'') ''k'' ''v2'') = 1 \<and>
   HashTable_Search (HashTable_Insert (HashTable_Insert (NewHashTable ''h'') ''k'' ''v1'') ''k'' ''v2'') ''k'' = (''v2'', True) \<and>
   hashFunction (NewHashTable ''h'') ''a'' = hashFunction (NewHashTable ''h'') ''k'' \<and>
   HashTable_Search (HashTable_Insert (HashTable_Insert (NewHashTable ''h'') ''a'' ''1'') ''k'' ''2'') ''a'' = (''1'', True) \<and>
   HashTable_Search (fst (HashTable_Remove (HashTable_Insert (HashTable_Insert (NewHashTable ''h'') ''a'' ''1'') ''k'' ''2'') ''a'')) ''k'' =
     (''2'', True)"
  by code_simp

text \<open>
  Distinct keys are all kept: inserting any list of pairs with distinct keys into a
  new table (through as many resizes as the list causes) gives a table whose size is the
  length of the list and which finds every key with its value. The specification's
  scenario of 20 keys into a table of capacity 10 is the instance of length 20.
\<close>

theorem Insert_distinct_keys:
  "distinct (map fst kvs) \<Longrightarrow>
   HashTable_GetSize (fold (\<lambda>(k, v) h. HashTable_Insert h k v) kvs (NewHashTable n)) = length kvs \<and>
   (\<forall>(k, v)\<in>set kvs. HashTable_Search (fold (\<lambda>(k, v) h. HashTable_Insert h k v) kvs (NewHashTable n)) k = (v, True))"
proof -
  assume d: "distinct (map fst kvs)"
  define t where "t = fold (\<lambda>(k, v) h. HashTable_Insert h k v) kvs (NewHashTable n)"
  have abs0: "ht_abs (NewHashTable n) = Map.empty"
    by (simp add: NewHashTable_def ht_abs_def)
  from fold_Insert [OF ht_reachable.new, of kvs n] have r: "ht_reachable t"
    and a: "ht_abs t = map_of kvs"
    using d by (simp_all add: t_def fold_upd_map_add abs0 map_of_rev_distinct)
  from r have inv: "ht_inv t" using ht_reachable_inv by blast
  have "HashTable_GetSize t = card (fst ` set kvs)"
    using ht_size_card [OF inv] a by (simp add: HashTable_GetSize_def dom_map_of_conv_image_fst)
  also have "\<dots> = length kvs"
    using d distinct_card [OF d] by simp
  finally have "HashTable_GetSize t = length kvs" .
  moreover have "\<forall>(k, v)\<in>set kvs. HashTable_Search t k = (v, True)"
    using Search_abs [OF inv] a d by auto
  ultimately show ?thesis by (simp add: t_def)
qed

theorem Insert_distinct_keys_witness:
  "HashTable_GetSize (fold (\<lambda>(k, v) h. HashTable_Insert h k v) [(''a'', ''1''), (''b'', ''2''), (''c'', ''3'')]
     (NewHashTable ''h'')) = 3"
  using Insert_distinct_keys [of "[(''a'', ''1''), (''b'', ''2''), (''c'', ''3'')]" "''h''"] by simp

end
