(* ===== verification/Stack.thy ===== *)
theory Stack
  imports Prelude
begin

text \<open>
  The stack of \<^verbatim>\<open>src/stack.go\<close>. The chain of \<open>StackNode\<close>s from \<open>top\<close> along
  \<open>Next\<close> is the list of their \<open>Data\<close>, top first, so \<open>top == nil\<close> is the empty
  list. \<open>Stack_Pop\<close> and \<open>Stack_Peek\<close> return the Go pair \<open>(string, error)\<close> as a sum, and \<open>Stack_Pop\<close>
  also the updated receiver. The counter \<open>size\<close> is decremented only after the emptiness
  check, so it is kept as a natural number. \<open>Stack_Cleanup\<close> is the loop that pops until the
  stack is empty; it terminates because every pop shortens the chain.
\<close>

record stack =
  stack_name :: string
  stack_top :: "string list"
  stack_size :: nat

definition NewStack :: "string \<Rightarrow> stack" where
  "NewStack name = \<lparr>stack_name = name, stack_top = [], stack_size = 0\<rparr>"

definition Stack_Push :: "stack \<Rightarrow> string \<Rightarrow> stack" where
  "Stack_Push s value = s\<lparr>stack_top := value # stack_top s, stack_size := stack_size s + 1\<rparr>"

definition Stack_IsEmpty :: "stack \<Rightarrow> bool" where
  "Stack_IsEmpty s \<longleftrightarrow> stack_top s = []"

definition Stack_Pop :: "stack \<Rightarrow> (go_error + string) \<times> stack" where
  "Stack_Pop s =
     (if Stack_IsEmpty s then (Inl ''stack is empty'', s)
      else (Inr (hd (stack_top s)),
            s\<lparr>stack_top := tl (stack_top s), stack_size := stack_size s - 1\<rparr>))"

definition Stack_Peek :: "stack \<Rightarrow> go_error + string" where
  "Stack_Peek s = (if Stack_IsEmpty s then Inl ''stack is empty'' else Inr (hd (stack_top s)))"

definition Stack_GetSize :: "stack \<Rightarrow> nat" where
  "Stack_GetSize s = stack_size s"

function Stack_Cleanup :: "stack \<Rightarrow> stack" where
  "Stack_Cleanup s = (if Stack_IsEmpty s then s else Stack_Cleanup (snd (Stack_Pop s)))"
  by pat_completeness auto

termination
  by (relation "measure (\<lambda>s. length (stack_top s))") (auto simp: Stack_Pop_def Stack_IsEmpty_def)

declare Stack_Cleanup.simps [simp del]

text \<open>
  Well-formed stacks: the counter equals the length of the chain. The reachable stacks
  are those built from \<open>NewStack\<close> by the methods that change the receiver.
\<close>

definition stack_inv :: "stack \<Rightarrow> bool" where
  "stack_inv s \<longleftrightarrow> stack_size s = length (stack_top s)"

inductive stack_reachable :: "stack \<Rightarrow> bool" where
  new: "stack_reachable (NewStack name)"
| push: "stack_reachable s \<Longrightarrow> stack_reachable (Stack_Push s v)"
| pop: "stack_reachable s \<Longrightarrow> stack_reachable (snd (Stack_Pop s))"
| cleanup: "stack_reachable s \<Longrightarrow> stack_reachable (Stack_Cleanup s)"

lemma Pop_nonempty [container_simps]:
  "stack_top s = v # vs \<Longrightarrow>
   Stack_Pop s = (Inr v, s\<lparr>stack_top := vs, stack_size := stack_size s - 1\<rparr>)"
  by (simp add: Stack_Pop_def Stack_IsEmpty_def)

lemma Pop_empty [container_simps]:
  "stack_top s = [] \<Longrightarrow> Stack_Pop s = (Inl ''stack is empty'', s)"
  by (simp add: Stack_Pop_def Stack_IsEmpty_def)

lemma Cleanup_inv:
  "stack_inv s \<Longrightarrow> Stack_Cleanup s = s\<lparr>stack_top := [], stack_size := 0\<rparr>"
proof (induction s rule: Stack_Cleanup.induct)
  case (1 s)
  show ?case
  proof (cases "stack_top s")
    case Nil
    with "1.prems" show ?thesis
      by (subst Stack_Cleanup.simps) (simp add: Stack_IsEmpty_def stack_inv_def)
  next
    case (Cons v vs)
    then have "\<not> Stack_IsEmpty s" by (simp add: Stack_IsEmpty_def)
    moreover have "stack_inv (snd (Stack_Pop s))"
      using "1.prems" Cons by (simp add: Pop_nonempty stack_inv_def)
    ultimately show ?thesis
      using "1.IH" Cons by (subst Stack_Cleanup.simps) (simp add: Pop_nonempty)
  qed
qed

lemma stack_reachable_inv: "stack_reachable s \<Longrightarrow> stack_inv s"
proof (induction rule: stack_reachable.induct)
  case (pop s)
  then show ?case
    by (cases "stack_top s") (simp_all add: Pop_nonempty Pop_empty stack_inv_def)
qed (simp_all add: NewStack_def Stack_Push_def stack_inv_def Cleanup_inv)

lemma example_stack_reachable:
  "stack_reachable (Stack_Push (Stack_Push (NewStack ''s'') ''a'') ''b'')"
  by (intro stack_reachable.push stack_reachable.new)

section \<open>Properties of the stack\<close>

text \<open>
  Last in, first out: popping right after a push returns the pushed value and gives
  back exactly the stack before the push, counter included.
\<close>

theorem Pop_Push: "Stack_Pop (Stack_Push s v) = (Inr v, s)"
  by (simp add: Stack_Pop_def Stack_Push_def Stack_IsEmpty_def)

text \<open>
  C20. Stack contract: on every reachable stack the counter \<open>Stack_GetSize\<close> is the number
  of stored values; \<open>Stack_Peek\<close> and \<open>Stack_Pop\<close> fail with "stack is empty" exactly when
  the stack is empty, and otherwise return the top value, \<open>Stack_Pop\<close> leaving the rest
  with the counter decreased; last in, first out: right after pushing any value,
  \<open>Stack_Peek\<close> and \<open>Stack_Pop\<close> return that value and the pop gives back exactly the
  stack before the push; \<open>Stack_Cleanup\<close> leaves an empty stack with counter 0.
\<close>

theorem stack_contract:
  "stack_reachable s \<Longrightarrow>
   Stack_GetSize s = length (stack_top s) \<and>
   (Stack_IsEmpty s \<longrightarrow> Stack_Peek s = Inl ''stack is empty'' \<and> fst (Stack_Pop s) = Inl ''stack is empty'') \<and>
   (\<not> Stack_IsEmpty s \<longrightarrow> Stack_Peek s = Inr (hd (stack_top s)) \<and> fst (Stack_Pop s) = Inr (hd (stack_top s)) \<and>
      stack_top (snd (Stack_Pop s)) = tl (stack_top s) \<and> Stack_GetSize (snd (Stack_Pop s)) = Stack_GetSize s - 1) \<and>
   (\<forall>v. Stack_Peek (Stack_Push s v) = Inr v \<and> Stack_Pop (Stack_Push s v) = (Inr v, s) \<and>
        Stack_GetSize (Stack_Push s v) = Stack_GetSize s + 1) \<and>
   stack_top (Stack_Cleanup s) = [] \<and> Stack_GetSize (Stack_Cleanup s) = 0"
  using stack_reachable_inv [of s]
  by (simp add: Stack_GetSize_def stack_inv_def Stack_Peek_def Stack_Pop_def Cleanup_inv Pop_Push
      Stack_Push_def Stack_IsEmpty_def)

theorem stack_contract_witness:
  "Stack_GetSize (Stack_Push (Stack_Push (NewStack ''s'') ''a'') ''b'') = 2 \<and>
   fst (Stack_Pop (Stack_Push (Stack_Push (NewStack ''s'') ''a'') ''b'')) = Inr ''b'' \<and>
   Stack_GetSize (Stack_Cleanup (Stack_Push (Stack_Push (NewStack ''s'') ''a'') ''b'')) = 0"
  using stack_contract [OF example_stack_reachable]
  by (simp add: Stack_Push_def NewStack_def Stack_IsEmpty_def)

end
