(* ===== verification/Queue.thy ===== *)
theory Queue
  imports Prelude
begin

text \<open>
  The queue of \<^verbatim>\<open>src/queue.go\<close>. The chain of \<open>QueueNode\<close>s from \<open>front\<close> along
  \<open>Next\<close> is the list of their \<open>Data\<close>, front first. The pointer \<open>rear\<close> aliases a
  node of that chain, so it is kept as the position of that node on the chain
  (\<open>None\<close> for nil): \<open>q.rear.Next = newNode\<close> then cuts the chain after that position
  and appends the new node, as the pointer assignment does, and when \<open>Queue_Pop\<close> unlinks the
  front node every later node moves one position forward. A nil \<open>rear\<close> on a non-empty
  chain would make \<open>Queue_Push\<close> dereference nil; that panic is \<open>None\<close>. The invariant
  \<open>queue_inv\<close> shows that \<open>rear\<close> always denotes the last node, so neither the panic
  nor a rear node off the chain arises from a reachable queue.
\<close>

record queue =
  queue_name :: string
  front :: "string list"
  rear :: "nat option"
  queue_size :: nat

definition NewQueue :: "string \<Rightarrow> queue" where
  "NewQueue name = \<lparr>queue_name = name, front = [], rear = None, queue_size = 0\<rparr>"

definition Queue_IsEmpty :: "queue \<Rightarrow> bool" where
  "Queue_IsEmpty q \<longleftrightarrow> front q = []"

definition Queue_Push :: "queue \<Rightarrow> string \<Rightarrow> queue option" where
  "Queue_Push q value =
     (if Queue_IsEmpty q then Some (q\<lparr>front := [value], rear := Some 0, queue_size := queue_size q + 1\<rparr>)
      else case rear q of
        None \<Rightarrow> None
      | Some r \<Rightarrow> Some (q\<lparr>front := take (Suc r) (front q) @ [value], rear := Some (Suc r),
                          queue_size := queue_size q + 1\<rparr>))"

definition Queue_Pop :: "queue \<Rightarrow> (go_error + string) \<times> queue" where
  "Queue_Pop q =
     (if Queue_IsEmpty q then (Inl ''queue is empty'', q)
      else let front' = tl (front q)
           in (Inr (hd (front q)),
               q\<lparr>front := front',
                 rear := (if front' = [] then None else map_option (\<lambda>r. r - 1) (rear q)),
                 queue_size := queue_size q - 1\<rparr>))"

definition Queue_Peek :: "queue \<Rightarrow> go_error + string" where
  "Queue_Peek q = (if Queue_IsEmpty q then Inl ''queue is empty'' else Inr (hd (front q)))"

definition Queue_GetSize :: "queue \<Rightarrow> nat" where
  "Queue_GetSize q = queue_size q"

function Queue_Cleanup :: "queue \<Rightarrow> queue" where
  "Queue_Cleanup q = (if Queue_IsEmpty q then q else Queue_Cleanup (snd (Queue_Pop q)))"
  by pat_completeness auto

termination
  by (relation "measure (\<lambda>q. length (front q))") (auto simp: Queue_Pop_def Queue_IsEmpty_def Let_def)

declare Queue_Cleanup.simps [simp del]

text \<open>
  Well-formed queues: \<open>rear\<close> is the position of the last node (nil exactly when the
  chain is empty) and the counter is the length of the chain.
\<close>

definition queue_inv :: "queue \<Rightarrow> bool" where
  "queue_inv q \<longleftrightarrow>
     rear q = (if front q = [] then None else Some (length (front q) - 1)) \<and>
     queue_size q = length (front q)"

inductive queue_reachable :: "queue \<Rightarrow> bool" where
  new: "queue_reachable (NewQueue name)"
| push: "queue_reachable q \<Longrightarrow> Queue_Push q v = Some q' \<Longrightarrow> queue_reachable q'"
| pop: "queue_reachable q \<Longrightarrow> queue_reachable (snd (Queue_Pop q))"
| cleanup: "queue_reachable q \<Longrightarrow> queue_reachable (Queue_Cleanup q)"

lemma queue_Push_inv [container_simps]:
  "queue_inv q \<Longrightarrow>
   Queue_Push q v = Some (q\<lparr>front := front q @ [v], rear := Some (length (front q)),
                     queue_size := queue_size q + 1\<rparr>)"
  by (cases "front q = []") (auto simp: Queue_Push_def Queue_IsEmpty_def queue_inv_def)

lemma queue_Pop_inv [container_simps]:
  "queue_inv q \<Longrightarrow> front q = v # vs \<Longrightarrow>
   Queue_Pop q = (Inr v, q\<lparr>front := vs, rear := (if vs = [] then None else Some (length vs - 1)),
                     queue_size := queue_size q - 1\<rparr>)"
  by (simp add: Queue_Pop_def Queue_IsEmpty_def queue_inv_def)

lemma queue_Pop_empty [container_simps]:
  "front q = [] \<Longrightarrow> Queue_Pop q = (Inl ''queue is empty'', q)"
  by (simp add: Queue_Pop_def Queue_IsEmpty_def)

lemma queue_inv_Push: "queue_inv q \<Longrightarrow> Queue_Push q v = Some q' \<Longrightarrow> queue_inv q'"
  by (auto simp: queue_Push_inv queue_inv_def)

lemma queue_inv_Pop: "queue_inv q \<Longrightarrow> queue_inv (snd (Queue_Pop q))"
  by (cases "front q") (auto simp: queue_Pop_inv queue_Pop_empty queue_inv_def)

lemma queue_Cleanup_inv:
  "queue_inv q \<Longrightarrow> Queue_Cleanup q = q\<lparr>front := [], rear := None, queue_size := 0\<rparr>"
proof (induction q rule: Queue_Cleanup.induct)
  case (1 q)
  show ?case
  proof (cases "front q")
    case Nil
    with "1.prems" show ?thesis
      by (subst Queue_Cleanup.simps) (simp add: Queue_IsEmpty_def queue_inv_def)
  next
    case (Cons v vs)
    then have "\<not> Queue_IsEmpty q" by (simp add: Queue_IsEmpty_def)
    moreover have "queue_inv (snd (Queue_Pop q))"
      using "1.prems" by (rule queue_inv_Pop)
    ultimately show ?thesis
      using "1.IH" "1.prems" Cons by (subst Queue_Cleanup.simps) (simp add: queue_Pop_inv)
  qed
qed

lemma queue_reachable_inv: "queue_reachable q \<Longrightarrow> queue_inv q"
proof (induction rule: queue_reachable.induct)
  case (push q v q')
  then show ?case using queue_inv_Push by blast
next
  case (pop q)
  then show ?case using queue_inv_Pop by blast
next
  case (cleanup q)
  then show ?case by (simp add: queue_Cleanup_inv queue_inv_def)
qed (simp add: NewQueue_def queue_inv_def)

lemma example_queue_reachable:
  "queue_reachable \<lparr>queue_name = ''q'', front = [''a'', ''b''], rear = Some 1, queue_size = 2\<rparr>"
proof -
  have "queue_reachable \<lparr>queue_name = ''q'', front = [''a''], rear = Some 0, queue_size = 1\<rparr>"
    by (rule queue_reachable.push [OF queue_reachable.new, where v = "''a''"])
       (simp add: Queue_Push_def NewQueue_def Queue_IsEmpty_def)
  then show ?thesis
    by (rule queue_reachable.push [where v = "''b''"]) (simp add: Queue_Push_def Queue_IsEmpty_def)
qed

section \<open>Properties of the queue\<close>

text \<open>
  C21. First in, first out: on every reachable queue \<open>Queue_Push\<close> never dereferences nil
  and appends the value at the rear, adding one to the counter; \<open>Queue_Pop\<close> on an empty
  queue fails with "queue is empty" and changes nothing, and otherwise returns the front
  value and removes exactly it, subtracting one from the counter.
\<close>

theorem queue_fifo:
  "queue_reachable q \<Longrightarrow>
   (\<exists>q'. Queue_Push q v = Some q' \<and> front q' = front q @ [v] \<and> Queue_GetSize q' = Queue_GetSize q + 1) \<and>
   (front q = [] \<longrightarrow> Queue_Pop q = (Inl ''queue is empty'', q)) \<and>
   (front q = x # xs \<longrightarrow>
      fst (Queue_Pop q) = Inr x \<and> front (snd (Queue_Pop q)) = xs \<and> Queue_GetSize (snd (Queue_Pop q)) = Queue_GetSize q - 1)"
  using queue_reachable_inv [of q]
  by (simp add: queue_Push_inv queue_Pop_inv queue_Pop_empty Queue_GetSize_def)

theorem queue_fifo_witness:
  "Queue_Push \<lparr>queue_name = ''q'', front = [''a'', ''b''], rear = Some 1, queue_size = 2\<rparr> ''c'' =
     Some \<lparr>queue_name = ''q'', front = [''a'', ''b'', ''c''], rear = Some 2, queue_size = 3\<rparr> \<and>
   fst (Queue_Pop \<lparr>queue_name = ''q'', front = [''a'', ''b''], rear = Some 1, queue_size = 2\<rparr>) = Inr ''a''"
  using queue_fifo [OF example_queue_reachable, of "''c''" "''a''" "[''b'']"]
  by (simp add: Queue_Push_def Queue_IsEmpty_def)

text \<open>
  C22. Queue structure: on every reachable queue the rear pointer denotes the last node
  of the chain (nil exactly when the queue is empty), \<open>Queue_GetSize\<close> is the number of
  stored values, and \<open>Queue_Cleanup\<close> leaves an empty queue with nil front and rear and
  counter 0.
\<close>

theorem queue_structure:
  "queue_reachable q \<Longrightarrow>
   rear q = (if front q = [] then None else Some (length (front q) - 1)) \<and>
   Queue_GetSize q = length (front q) \<and>
   front (Queue_Cleanup q) = [] \<and> rear (Queue_Cleanup q) = None \<and> Queue_GetSize (Queue_Cleanup q) = 0"
  using queue_reachable_inv [of q]
  by (simp add: queue_inv_def Queue_GetSize_def queue_Cleanup_inv)

theorem queue_structure_witness:
  "rear \<lparr>queue_name = ''q'', front = [''a'', ''b''], rear = Some 1, queue_size = 2\<rparr> = Some 1 \<and>
   Queue_GetSize (Queue_Cleanup \<lparr>queue_name = ''q'', front = [''a'', ''b''], rear = Some 1, queue_size = 2\<rparr>) = 0"
  using queue_structure [OF example_queue_reachable] by simp

end
