(* ===== verification/Array.thy ===== *)
theory Array
  imports Prelude
begin

text \<open>
  The dynamic string array of \<^verbatim>\<open>src/array.go\<close>. The slice \<open>data\<close> is a list and
  indices are Go \<open>int\<close>s, so they are HOL integers checked against the length as the
  code checks them. Methods that return only an \<open>error\<close> return either its message or
  the updated receiver. \<open>Array_Insert\<close> follows the code statement by statement: it appends
  an empty string, shifts the tail one place right with the built-in \<open>copy\<close> (which
  copies as many elements as the shorter slice has and behaves as if through a buffer
  when the slices overlap; \<open>go_copy\<close>), then stores the value.
\<close>

record go_array =
  array_name :: string
  data :: "string list"

definition NewArray :: "string \<Rightarrow> go_array" where
  "NewArray name = \<lparr>array_name = name, data = []\<rparr>"

definition Array_PushBack :: "go_array \<Rightarrow> string \<Rightarrow> go_array" where
  "Array_PushBack a value = a\<lparr>data := data a @ [value]\<rparr>"

definition go_copy :: "'a list \<Rightarrow> 'a list \<Rightarrow> 'a list" where
  "go_copy dst src = (let n = min (length dst) (length src) in take n src @ drop n dst)"

definition Array_Insert :: "go_array \<Rightarrow> int \<Rightarrow> string \<Rightarrow> go_error + go_array" where
  "Array_Insert a index value =
     (if index < 0 \<or> index > int (length (data a)) then Inl ''index out of range''
      else let i = nat index;
               d1 = data a @ [''''];
               d2 = take (i + 1) d1 @ go_copy (drop (i + 1) d1) (drop i d1)
           in Inr (a\<lparr>data := d2[i := value]\<rparr>))"

definition Get :: "go_array \<Rightarrow> int \<Rightarrow> go_error + string" where
  "Get a index =
     (if index < 0 \<or> index \<ge> int (length (data a)) then Inl ''index out of range''
      else Inr (data a ! nat index))"

definition Array_Remove :: "go_array \<Rightarrow> int \<Rightarrow> go_error + go_array" where
  "Array_Remove a index =
     (if index < 0 \<or> index \<ge> int (length (data a)) then Inl ''index out of range''
      else Inr (a\<lparr>data := take (nat index) (data a) @ drop (nat index + 1) (data a)\<rparr>))"

definition Replace :: "go_array \<Rightarrow> int \<Rightarrow> string \<Rightarrow> go_error + go_array" where
  "Replace a index value =
     (if index < 0 \<or> index \<ge> int (length (data a)) then Inl ''index out of range''
      else Inr (a\<lparr>data := (data a)[nat index := value]\<rparr>))"

definition Length :: "go_array \<Rightarrow> nat" where
  "Length a = length (data a)"

definition Array_IsEmpty :: "go_array \<Rightarrow> bool" where
  "Array_IsEmpty a \<longleftrightarrow> length (data a) = 0"

definition Array_Cleanup :: "go_array \<Rightarrow> go_array" where
  "Array_Cleanup a = a\<lparr>data := []\<rparr>"

lemma go_copy_shift:
  assumes "i \<le> length d"
  shows "take (i + 1) (d @ [x]) @ go_copy (drop (i + 1) (d @ [x])) (drop i (d @ [x])) =
         take i d @ (d @ [x]) ! i # drop i d"
proof -
  have "go_copy (drop (i + 1) (d @ [x])) (drop i (d @ [x])) = drop i d"
    using assms by (simp add: go_copy_def min_def Suc_diff_le)
  moreover have "take (Suc i) (d @ [x]) = take i (d @ [x]) @ [(d @ [x]) ! i]"
    using assms by (intro take_Suc_conv_app_nth) simp
  ultimately show ?thesis using assms by simp
qed

lemma Insert_list:
  "Array_Insert a index value =
     (if 0 \<le> index \<and> index \<le> int (length (data a))
      then Inr (a\<lparr>data := take (nat index) (data a) @ value # drop (nat index) (data a)\<rparr>)
      else Inl ''index out of range'')"
proof (cases "0 \<le> index \<and> index \<le> int (length (data a))")
  case True
  define i where "i = nat index"
  have le: "i \<le> length (data a)" using True unfolding i_def by linarith
  define x where "x = (data a @ ['''']) ! i"
  have shift: "take (i + 1) (data a @ ['''']) @
      go_copy (drop (i + 1) (data a @ [''''])) (drop i (data a @ [''''])) =
      take i (data a) @ x # drop i (data a)"
    unfolding x_def by (rule go_copy_shift [OF le])
  have upd: "(take i (data a) @ x # drop i (data a))[i := value] =
      take i (data a) @ value # drop i (data a)"
    using list_update_length [of "take i (data a)" x "drop i (data a)" "value"] le by simp
  show ?thesis
    using True unfolding Array_Insert_def Let_def i_def [symmetric] shift upd by simp
next
  case False
  then show ?thesis by (auto simp: Array_Insert_def)
qed

section \<open>Properties of the array\<close>

text \<open>
  C23. The shifting insertion is list insertion: the code's append, overlapping
  \<open>copy\<close> and store put the value at the index with every later element moved one
  place right, for every index from 0 to the length inclusive; every other index is
  rejected with "index out of range" and leaves the array unchanged.
\<close>

theorem Insert_is_list_insert:
  "Array_Insert a index value =
     (if 0 \<le> index \<and> index \<le> int (Length a)
      then Inr (a\<lparr>data := take (nat index) (data a) @ value # drop (nat index) (data a)\<rparr>)
      else Inl ''index out of range'')"
  by (simp add: Insert_list Length_def)

text \<open>
  C24. Index errors: \<open>Get\<close>, \<open>Array_Remove\<close> and \<open>Replace\<close> fail with
  "index out of range" exactly when the index is negative or at least the length, and
  \<open>Array_Insert\<close> exactly when it is negative or greater than the length; a failing call
  returns no array, so the receiver keeps its contents.
\<close>

theorem index_errors:
  "(Get a i = Inl ''index out of range'' \<longleftrightarrow> i < 0 \<or> int (Length a) \<le> i) \<and>
   (Array_Remove a i = Inl ''index out of range'' \<longleftrightarrow> i < 0 \<or> int (Length a) \<le> i) \<and>
   (Replace a i v = Inl ''index out of range'' \<longleftrightarrow> i < 0 \<or> int (Length a) \<le> i) \<and>
   (Array_Insert a i v = Inl ''index out of range'' \<longleftrightarrow> i < 0 \<or> int (Length a) < i)"
  by (auto simp: Get_def Array_Remove_def Replace_def Insert_list Length_def)

theorem index_errors_witness:
  "Get (Array_PushBack (NewArray ''a'') ''x'') 1 = Inl ''index out of range'' \<and>
   Array_Insert (Array_PushBack (NewArray ''a'') ''x'') 1 ''y'' \<noteq> Inl ''index out of range''"
  using index_errors [of "Array_PushBack (NewArray ''a'') ''x''" 1 "''y''"]
  by (simp add: Array_PushBack_def NewArray_def Length_def)

text \<open>
  C25. Array_Insert, read back, remove: after a successful \<open>Array_Insert\<close> at an index, \<open>Get\<close>
  at that index returns the value, the length grew by one, and \<open>Array_Remove\<close> at that index
  gives back the array before the insertion; after a successful \<open>Replace\<close>, \<open>Get\<close>
  returns the new value and the length is unchanged.
\<close>

theorem insert_get_remove:
  "(Array_Insert a i v = Inr a' \<longrightarrow> Get a' i = Inr v \<and> Length a' = Length a + 1 \<and> Array_Remove a' i = Inr a) \<and>
   (Replace a i v = Inr a'' \<longrightarrow> Get a'' i = Inr v \<and> Length a'' = Length a)"
proof (intro conjI impI)
  assume ins: "Array_Insert a i v = Inr a'"
  then have r: "0 \<le> i" "i \<le> int (length (data a))"
    and a': "a' = a\<lparr>data := take (nat i) (data a) @ v # drop (nat i) (data a)\<rparr>"
    by (auto simp: Insert_list split: if_splits)
  have len: "length (take (nat i) (data a)) = nat i" using r by simp
  show "Get a' i = Inr v" using r a' by (simp add: Get_def nth_append len)
  show "Length a' = Length a + 1" using r a' by (simp add: Length_def)
  show "Array_Remove a' i = Inr a" using r a' by (simp add: Array_Remove_def len)
next
  assume "Replace a i v = Inr a''"
  then have "0 \<le> i" "i < int (length (data a))" "a'' = a\<lparr>data := (data a)[nat i := v]\<rparr>"
    by (auto simp: Replace_def split: if_splits)
  then show "Get a'' i = Inr v" "Length a'' = Length a"
    by (simp_all add: Get_def Length_def)
qed

theorem insert_get_remove_witness:
  "Get (Array_PushBack (Array_PushBack (NewArray ''a'') ''x'') ''y'') 1 = Inr ''y'' \<and>
   Array_Remove (Array_PushBack (Array_PushBack (NewArray ''a'') ''x'') ''y'') 1 = Inr (Array_PushBack (NewArray ''a'') ''x'')"
proof -
  have "Array_Insert (Array_PushBack (NewArray ''a'') ''x'') 1 ''y'' = Inr (Array_PushBack (Array_PushBack (NewArray ''a'') ''x'') ''y'')"
    by (simp add: Insert_list Array_PushBack_def NewArray_def)
  then show ?thesis
    using insert_get_remove [of "Array_PushBack (NewArray ''a'') ''x''" 1 "''y''"
        "Array_PushBack (Array_PushBack (NewArray ''a'') ''x'') ''y''" "Array_PushBack (NewArray ''a'') ''x''"]
    by blast
qed

end
