(* ===== verification/Singly_Linked_List.thy ===== *)
theory Singly_Linked_List
  imports Prelude
begin

text \<open>
  The singly linked list of \<^verbatim>\<open>src/singly_linked_list.go\<close>. The chain of
  \<open>SLLNode\<close>s from \<open>head\<close> along \<open>Next\<close> is the list \<open>sll_head\<close> of their
  \<open>Data\<close>; a pointer to a node of the chain is its position on it, so \<open>tail\<close> is
  \<open>sll_tail\<close>, a position or \<open>None\<close> for nil, and \<open>SLL_FindByValue\<close> returns a
  position. Assigning \<open>n.Next\<close> for the node \<open>n\<close> at position \<open>p\<close> cuts the chain
  after \<open>p\<close> and continues it with the new successor; a pointer that is not changed
  keeps denoting the same node, whose position moves by one when a node is linked in or
  unlinked before it (\<open>shift_ins\<close>, \<open>shift_del\<close>). The loops that walk the chain
  are recursive functions over the positions they visit. The one walk that can reach a
  nil node and dereference it, the search for the predecessor of \<open>tail\<close> in
  \<open>SLL_DeleteBack\<close>, returns \<open>None\<close> there (a Go panic). The invariant \<open>sll_inv\<close> says
  that \<open>tail\<close> denotes the last node; it holds on every reachable list, so no pointer
  off the chain arises.
\<close>

record sll =
  sll_name :: string
  sll_head :: "string list"
  sll_tail :: "nat option"

definition shift_ins :: "nat \<Rightarrow> nat \<Rightarrow> nat" where
  "shift_ins p i = (if p \<le> i then Suc i else i)"

definition shift_del :: "nat \<Rightarrow> nat \<Rightarrow> nat" where
  "shift_del p i = (if p < i then i - 1 else i)"

definition NewSinglyLinkedList :: "string \<Rightarrow> sll" where
  "NewSinglyLinkedList name = \<lparr>sll_name = name, sll_head = [], sll_tail = None\<rparr>"

definition SLL_PushFront :: "sll \<Rightarrow> string \<Rightarrow> sll" where
  "SLL_PushFront s value =
     s\<lparr>sll_head := value # sll_head s,
       sll_tail := (if sll_tail s = None then Some 0 else map_option Suc (sll_tail s))\<rparr>"

definition SLL_PushBack :: "sll \<Rightarrow> string \<Rightarrow> sll" where
  "SLL_PushBack s value =
     (case sll_tail s of
        None \<Rightarrow> s\<lparr>sll_head := [value], sll_tail := Some 0\<rparr>
      | Some t \<Rightarrow> s\<lparr>sll_head := take (Suc t) (sll_head s) @ [value], sll_tail := Some (Suc t)\<rparr>)"

text \<open>
  \<open>for current.Next != nil && current.Next.Data != target\<close>, on the chain from
  \<open>current\<close>: the number of steps taken.
\<close>

fun beforeWalk :: "string \<Rightarrow> string list \<Rightarrow> nat" where
  "beforeWalk target (c # n # rest) = (if n \<noteq> target then Suc (beforeWalk target (n # rest)) else 0)"
| "beforeWalk target _ = 0"

definition SLL_InsertBefore :: "sll \<Rightarrow> string \<Rightarrow> string \<Rightarrow> sll" where
  "SLL_InsertBefore s target value =
     (if sll_head s = [] then s
      else if hd (sll_head s) = target then SLL_PushFront s value
      else let p = beforeWalk target (sll_head s)
           in if Suc p < length (sll_head s)
              then s\<lparr>sll_head := take (Suc p) (sll_head s) @ value # drop (Suc p) (sll_head s),
                     sll_tail := map_option (shift_ins (Suc p)) (sll_tail s)\<rparr>
              else s)"

text \<open>\<open>for current != nil && current.Data != target\<close>: the number of steps taken.\<close>

fun afterWalk :: "string \<Rightarrow> string list \<Rightarrow> nat" where
  "afterWalk target [] = 0"
| "afterWalk target (c # rest) = (if c \<noteq> target then Suc (afterWalk target rest) else 0)"

definition SLL_InsertAfter :: "sll \<Rightarrow> string \<Rightarrow> string \<Rightarrow> sll" where
  "SLL_InsertAfter s target value =
     (let p = afterWalk target (sll_head s)
      in if p < length (sll_head s)
         then s\<lparr>sll_head := take (Suc p) (sll_head s) @ value # drop (Suc p) (sll_head s),
                sll_tail := (if sll_tail s = Some p then Some (Suc p)
                             else map_option (shift_ins (Suc p)) (sll_tail s))\<rparr>
         else s)"

definition SLL_DeleteFront :: "sll \<Rightarrow> sll" where
  "SLL_DeleteFront s =
     (if sll_head s = [] then s
      else let h' = tl (sll_head s)
           in s\<lparr>sll_head := h', sll_tail := (if h' = [] then None else map_option (\<lambda>i. i - 1) (sll_tail s))\<rparr>)"

text \<open>
  \<open>for current.Next != s.tail\<close> from the node at position \<open>p\<close>: the position of the
  predecessor of \<open>tail\<close>, or \<open>None\<close> when \<open>current\<close> runs off the chain and the next
  test dereferences nil.
\<close>

function backWalk :: "string list \<Rightarrow> nat option \<Rightarrow> nat \<Rightarrow> nat option" where
  "backWalk xs t p =
     (let nxt = (if Suc p < length xs then Some (Suc p) else None)
      in if nxt = t then Some p
         else case nxt of None \<Rightarrow> None | Some q \<Rightarrow> backWalk xs t q)"
  by pat_completeness auto

termination
  by (relation "measure (\<lambda>(xs, t, p). length xs - p)") (auto split: if_splits)

definition SLL_DeleteBack :: "sll \<Rightarrow> sll option" where
  "SLL_DeleteBack s =
     (if sll_head s = [] then Some s
      else if tl (sll_head s) = [] then Some (s\<lparr>sll_head := [], sll_tail := None\<rparr>)
      else case backWalk (sll_head s) (sll_tail s) 0 of
             None \<Rightarrow> None
           | Some p \<Rightarrow> Some (s\<lparr>sll_head := take (Suc p) (sll_head s), sll_tail := Some p\<rparr>))"

text \<open>The first loop of \<open>SLL_DeleteByValue\<close>: \<open>SLL_DeleteFront\<close> while the head holds the value.\<close>

function deleteLeading :: "string \<Rightarrow> sll \<Rightarrow> sll" where
  "deleteLeading value s =
     (if sll_head s \<noteq> [] \<and> hd (sll_head s) = value then deleteLeading value (SLL_DeleteFront s) else s)"
  by pat_completeness auto

termination
  by (relation "measure (\<lambda>(v, s). length (sll_head s))") (auto simp: SLL_DeleteFront_def Let_def)

text \<open>
  The second loop of \<open>SLL_DeleteByValue\<close>, with \<open>current\<close> at position \<open>p\<close>: unlink
  the successor when it holds the value (and make \<open>current\<close> the tail when it becomes
  the last node), advance otherwise.
\<close>

function deleteRest :: "string \<Rightarrow> sll \<Rightarrow> nat \<Rightarrow> sll" where
  "deleteRest value s p =
     (if Suc p < length (sll_head s) then
        if sll_head s ! Suc p = value then
          let h' = take (Suc p) (sll_head s) @ drop (Suc (Suc p)) (sll_head s)
          in deleteRest value
               (s\<lparr>sll_head := h',
                  sll_tail := (if Suc p < length h' then map_option (shift_del (Suc p)) (sll_tail s)
                               else Some p)\<rparr>) p
        else deleteRest value s (Suc p)
      else s)"
  by pat_completeness auto

termination
  by (relation "measure (\<lambda>(v, s, p). length (sll_head s) - p)") auto

definition SLL_DeleteByValue :: "sll \<Rightarrow> string \<Rightarrow> sll" where
  "SLL_DeleteByValue s value =
     (let s1 = deleteLeading value s in if sll_head s1 = [] then s1 else deleteRest value s1 0)"

fun findNode :: "string \<Rightarrow> string list \<Rightarrow> nat \<Rightarrow> nat option" where
  "findNode value [] p = None"
| "findNode value (c # rest) p = (if c = value then Some p else findNode value rest (Suc p))"

definition SLL_FindByValue :: "sll \<Rightarrow> string \<Rightarrow> nat option" where
  "SLL_FindByValue s value = findNode value (sll_head s) 0"

definition SLL_IsEmpty :: "sll \<Rightarrow> bool" where
  "SLL_IsEmpty s \<longleftrightarrow> sll_head s = []"

definition SLL_Cleanup :: "sll \<Rightarrow> sll" where
  "SLL_Cleanup s = s\<lparr>sll_head := [], sll_tail := None\<rparr>"

declare backWalk.simps [simp del] deleteLeading.simps [simp del] deleteRest.simps [simp del]

section \<open>Abstraction and invariant\<close>

text \<open>
  A well-formed list has its \<open>tail\<close> at the last position (\<open>last_pos\<close>); the
  list operations the methods implement are \<open>ins_before\<close> and \<open>ins_after\<close> of
  the prelude, \<open>filter\<close>, \<open>tl\<close> and \<open>butlast\<close>.
\<close>

definition last_pos :: "'a list \<Rightarrow> nat option" where
  "last_pos xs = (if xs = [] then None else Some (length xs - 1))"

definition keep_first :: "nat \<Rightarrow> string \<Rightarrow> string list \<Rightarrow> string list" where
  "keep_first p v xs = take (Suc p) xs @ filter (\<lambda>x. x \<noteq> v) (drop (Suc p) xs)"

definition sll_inv :: "sll \<Rightarrow> bool" where
  "sll_inv s \<longleftrightarrow> sll_tail s = last_pos (sll_head s)"

inductive sll_reachable :: "sll \<Rightarrow> bool" where
  new: "sll_reachable (NewSinglyLinkedList name)"
| push_front: "sll_reachable s \<Longrightarrow> sll_reachable (SLL_PushFront s v)"
| push_back: "sll_reachable s \<Longrightarrow> sll_reachable (SLL_PushBack s v)"
| insert_before: "sll_reachable s \<Longrightarrow> sll_reachable (SLL_InsertBefore s t v)"
| insert_after: "sll_reachable s \<Longrightarrow> sll_reachable (SLL_InsertAfter s t v)"
| delete_front: "sll_reachable s \<Longrightarrow> sll_reachable (SLL_DeleteFront s)"
| delete_back: "sll_reachable s \<Longrightarrow> SLL_DeleteBack s = Some s' \<Longrightarrow> sll_reachable s'"
| delete_by_value: "sll_reachable s \<Longrightarrow> sll_reachable (SLL_DeleteByValue s v)"
| cleanup: "sll_reachable s \<Longrightarrow> sll_reachable (SLL_Cleanup s)"

lemma last_pos_simps [simp]:
  "last_pos [] = None" "last_pos (x # xs) = Some (length xs)"
  by (simp_all add: last_pos_def)

lemma beforeWalk_found:
  "t \<in> set rest \<Longrightarrow>
   Suc (beforeWalk t (c # rest)) < length (c # rest) \<and>
   take (Suc (beforeWalk t (c # rest))) (c # rest) @ v # drop (Suc (beforeWalk t (c # rest))) (c # rest) =
     c # ins_before t v rest"
proof (induction rest arbitrary: c)
  case (Cons n rest)
  show ?case
  proof (cases "n = t")
    case False
    with Cons.prems have "t \<in> set rest" by simp
    with Cons.IH [of n] False show ?thesis by simp
  qed simp
qed simp

lemma beforeWalk_absent:
  "t \<notin> set rest \<Longrightarrow> Suc (beforeWalk t (c # rest)) = length (c # rest)"
  by (induction rest arbitrary: c) auto

lemma afterWalk_found:
  "t \<in> set xs \<Longrightarrow>
   afterWalk t xs < length xs \<and>
   take (Suc (afterWalk t xs)) xs @ v # drop (Suc (afterWalk t xs)) xs = ins_after t v xs"
  by (induction xs) auto

lemma afterWalk_absent: "t \<notin> set xs \<Longrightarrow> afterWalk t xs = length xs"
  by (induction xs) auto

lemma PushFront_inv [container_simps]:
  "sll_inv s \<Longrightarrow> SLL_PushFront s v = s\<lparr>sll_head := v # sll_head s, sll_tail := last_pos (v # sll_head s)\<rparr>"
  by (cases "sll_head s") (simp_all add: SLL_PushFront_def sll_inv_def)

lemma PushBack_inv [container_simps]:
  "sll_inv s \<Longrightarrow>
   SLL_PushBack s v = s\<lparr>sll_head := sll_head s @ [v], sll_tail := last_pos (sll_head s @ [v])\<rparr>"
  by (cases "sll_head s") (simp_all add: SLL_PushBack_def sll_inv_def)

lemma InsertBefore_inv [container_simps]:
  assumes inv: "sll_inv s"
  shows "SLL_InsertBefore s t v =
    s\<lparr>sll_head := ins_before t v (sll_head s), sll_tail := last_pos (ins_before t v (sll_head s))\<rparr>"
proof (cases "sll_head s")
  case Nil
  then show ?thesis using inv by (simp add: SLL_InsertBefore_def sll_inv_def)
next
  case (Cons c rest)
  show ?thesis
  proof (cases "c = t")
    case True
    then show ?thesis using inv Cons by (simp add: SLL_InsertBefore_def PushFront_inv)
  next
    case ne: False
    show ?thesis
    proof (cases "t \<in> set rest")
      case True
      from beforeWalk_found [OF True, of c v] ne Cons inv length_ins_before [OF True, of v]
      show ?thesis by (simp add: SLL_InsertBefore_def sll_inv_def shift_ins_def)
    next
      case False
      with beforeWalk_absent [OF False, of c] ne Cons inv
      show ?thesis by (simp add: SLL_InsertBefore_def sll_inv_def)
    qed
  qed
qed

lemma InsertAfter_inv [container_simps]:
  assumes inv: "sll_inv s"
  shows "SLL_InsertAfter s t v =
    s\<lparr>sll_head := ins_after t v (sll_head s), sll_tail := last_pos (ins_after t v (sll_head s))\<rparr>"
proof (cases "t \<in> set (sll_head s)")
  case True
  with afterWalk_found [OF True, of v] inv length_ins_after [OF True, of v]
  show ?thesis by (auto simp: SLL_InsertAfter_def Let_def sll_inv_def last_pos_def shift_ins_def)
next
  case False
  with afterWalk_absent [OF False] inv show ?thesis
    by (simp add: SLL_InsertAfter_def sll_inv_def)
qed

lemma DeleteFront_inv [container_simps]:
  "sll_inv s \<Longrightarrow>
   SLL_DeleteFront s = s\<lparr>sll_head := tl (sll_head s), sll_tail := last_pos (tl (sll_head s))\<rparr>"
  by (cases "sll_head s") (auto simp: SLL_DeleteFront_def sll_inv_def last_pos_def)

lemma backWalk_pred:
  "k < length xs \<Longrightarrow> Suc p \<le> k \<Longrightarrow> backWalk xs (Some k) p = Some (k - 1)"
proof (induction "k - Suc p" arbitrary: p)
  case 0
  then have "Suc p = k" by simp
  with "0.prems" show ?case by (subst backWalk.simps) simp
next
  case (Suc n)
  then have "Suc (Suc p) \<le> k" "n = k - Suc (Suc p)" by simp_all
  with Suc.hyps(1) [of "Suc p"] Suc.prems show ?case
    by (subst backWalk.simps) simp
qed

lemma DeleteBack_inv [container_simps]:
  "sll_inv s \<Longrightarrow>
   SLL_DeleteBack s = Some (s\<lparr>sll_head := butlast (sll_head s), sll_tail := last_pos (butlast (sll_head s))\<rparr>)"
proof (cases "sll_head s")
  case (Cons c rest)
  assume inv: "sll_inv s"
  show ?thesis
  proof (cases rest)
    case (Cons d rest')
    have "backWalk (sll_head s) (sll_tail s) 0 = Some (length (sll_head s) - 2)"
      using inv backWalk_pred [of "length (sll_head s) - 1" "sll_head s" 0] \<open>sll_head s = c # rest\<close> Cons
      by (simp add: sll_inv_def)
    moreover have "take (length rest) (c # rest) = butlast (c # rest)"
      by (simp add: butlast_conv_take)
    ultimately show ?thesis
      using \<open>sll_head s = c # rest\<close> Cons by (simp add: SLL_DeleteBack_def)
  qed (simp add: SLL_DeleteBack_def \<open>sll_head s = c # rest\<close>)
qed (simp add: SLL_DeleteBack_def sll_inv_def)

lemma deleteLeading_inv:
  "sll_inv s \<Longrightarrow>
   deleteLeading v s =
     s\<lparr>sll_head := dropWhile (\<lambda>x. x = v) (sll_head s),
       sll_tail := last_pos (dropWhile (\<lambda>x. x = v) (sll_head s))\<rparr>"
proof (induction v s rule: deleteLeading.induct)
  case (1 v s)
  show ?case
  proof (cases "sll_head s")
    case Nil
    with "1.prems" show ?thesis by (subst deleteLeading.simps) (simp add: sll_inv_def)
  next
    case (Cons c rest)
    show ?thesis
    proof (cases "c = v")
      case True
      have "sll_inv (SLL_DeleteFront s)"
        using "1.prems" by (simp add: DeleteFront_inv sll_inv_def)
      with "1.IH" "1.prems" Cons True show ?thesis
        by (subst deleteLeading.simps) (simp add: DeleteFront_inv)
    next
      case False
      with "1.prems" Cons show ?thesis
        by (subst deleteLeading.simps) (simp add: sll_inv_def)
    qed
  qed
qed

lemma deleteRest_inv:
  "sll_inv s \<Longrightarrow> p < length (sll_head s) \<Longrightarrow>
   deleteRest v s p =
     s\<lparr>sll_head := keep_first p v (sll_head s), sll_tail := last_pos (keep_first p v (sll_head s))\<rparr>"
proof (induction v s p rule: deleteRest.induct)
  case (1 v s p)
  have inv: "sll_tail s = last_pos (sll_head s)" using "1.prems"(1) by (simp add: sll_inv_def)
  show ?case
  proof (cases "Suc p < length (sll_head s)")
    case False
    then have "drop (Suc p) (sll_head s) = []" by simp
    with False "1.prems" inv show ?thesis
      by (subst deleteRest.simps) (simp add: keep_first_def)
  next
    case lt: True
    have split: "drop (Suc p) (sll_head s) = sll_head s ! Suc p # drop (Suc (Suc p)) (sll_head s)"
      using lt by (simp add: Cons_nth_drop_Suc)
    show ?thesis
    proof (cases "sll_head s ! Suc p = v")
      case True
      define h' where "h' = take (Suc p) (sll_head s) @ drop (Suc (Suc p)) (sll_head s)"
      define s' where "s' = s\<lparr>sll_head := h',
          sll_tail := (if Suc p < length h' then map_option (shift_del (Suc p)) (sll_tail s) else Some p)\<rparr>"
      have lh: "length h' = length (sll_head s) - 1" using lt by (simp add: h'_def)
      have hs': "sll_head s' = h'" by (simp add: s'_def)
      have inv': "sll_inv s'"
        using lt lh inv by (auto simp: s'_def sll_inv_def last_pos_def shift_del_def)
      have step: "deleteRest v s p = deleteRest v s' p"
        using lt True by (subst deleteRest.simps) (simp add: h'_def s'_def Let_def)
      note ih = "1.IH"(1) [OF lt True refl, folded h'_def, folded s'_def]
      have "keep_first p v h' = keep_first p v (sll_head s)"
        using lt True split by (simp add: keep_first_def h'_def)
      then show ?thesis
        unfolding step using ih inv' lt lh hs' by (simp add: s'_def)
    next
      case False
      have "deleteRest v s p = deleteRest v s (Suc p)"
        using lt False by (subst deleteRest.simps) simp
      moreover have "keep_first (Suc p) v (sll_head s) = keep_first p v (sll_head s)"
        using lt False split by (simp add: keep_first_def take_Suc_conv_app_nth)
      ultimately show ?thesis
        using "1.IH"(2) [OF lt False] "1.prems"(1) lt by simp
    qed
  qed
qed

lemma filter_dropWhile:
  "filter (\<lambda>x. x \<noteq> v) (dropWhile (\<lambda>x. x = v) xs) = filter (\<lambda>x. x \<noteq> v) xs"
  by (induction xs) auto

lemma DeleteByValue_inv [container_simps]:
  assumes inv: "sll_inv s"
  shows "SLL_DeleteByValue s v =
    s\<lparr>sll_head := filter (\<lambda>x. x \<noteq> v) (sll_head s),
      sll_tail := last_pos (filter (\<lambda>x. x \<noteq> v) (sll_head s))\<rparr>"
proof -
  define ys where "ys = dropWhile (\<lambda>x. x = v) (sll_head s)"
  have f: "filter (\<lambda>x. x \<noteq> v) (sll_head s) = filter (\<lambda>x. x \<noteq> v) ys"
    unfolding ys_def by (rule filter_dropWhile [symmetric])
  have s1: "deleteLeading v s = s\<lparr>sll_head := ys, sll_tail := last_pos ys\<rparr>"
    using deleteLeading_inv [OF inv] by (simp add: ys_def)
  show ?thesis
  proof (cases ys)
    case Nil
    with f s1 show ?thesis by (simp add: SLL_DeleteByValue_def)
  next
    case (Cons y ys')
    then have "y \<noteq> v" using hd_dropWhile [of "\<lambda>x. x = v" "sll_head s"] unfolding ys_def by simp
    moreover have "sll_inv (s\<lparr>sll_head := ys, sll_tail := last_pos ys\<rparr>)" by (simp add: sll_inv_def)
    ultimately show ?thesis
      using f s1 Cons deleteRest_inv [of "s\<lparr>sll_head := ys, sll_tail := last_pos ys\<rparr>" 0 v]
      by (simp add: SLL_DeleteByValue_def keep_first_def)
  qed
qed

lemma sll_reachable_inv: "sll_reachable s \<Longrightarrow> sll_inv s"
  by (induction rule: sll_reachable.induct)
     (auto simp: container_simps sll_inv_def NewSinglyLinkedList_def SLL_Cleanup_def)

lemma findNode_None: "findNode v xs p = None \<longleftrightarrow> v \<notin> set xs"
  by (induction xs arbitrary: p) auto

lemma findNode_Some:
  "findNode v xs p = Some q \<Longrightarrow>
   \<exists>k. q = p + k \<and> k < length xs \<and> xs ! k = v \<and> v \<notin> set (take k xs)"
proof (induction xs arbitrary: p)
  case (Cons c rest)
  show ?case
  proof (cases "c = v")
    case False
    with Cons.prems have "findNode v rest (Suc p) = Some q" by simp
    from Cons.IH [OF this] obtain k where
      "q = Suc p + k" "k < length rest" "rest ! k = v" "v \<notin> set (take k rest)" by blast
    with False show ?thesis by (intro exI [of _ "Suc k"]) simp
  qed (use Cons.prems in auto)
qed simp

lemma FindByValue_first:
  "(SLL_FindByValue s v = None \<longleftrightarrow> v \<notin> set (sll_head s)) \<and>
   (SLL_FindByValue s v = Some p \<longrightarrow>
      p < length (sll_head s) \<and> sll_head s ! p = v \<and> v \<notin> set (take p (sll_head s)))"
  using findNode_None [of v "sll_head s" 0] findNode_Some [of v "sll_head s" 0 p]
  by (auto simp: SLL_FindByValue_def)

lemma example_sll_reachable:
  "sll_reachable \<lparr>sll_name = ''l'', sll_head = [''a'', ''b''], sll_tail = Some 1\<rparr>"
proof -
  have "sll_reachable (SLL_PushBack (SLL_PushBack (NewSinglyLinkedList ''l'') ''a'') ''b'')"
    by (intro sll_reachable.push_back sll_reachable.new)
  then show ?thesis by (simp add: SLL_PushBack_def NewSinglyLinkedList_def)
qed

section \<open>Properties of the singly linked list\<close>

text \<open>
  C26. The list operations: on every reachable list, \<open>SLL_PushFront\<close> and \<open>SLL_PushBack\<close>
  add the value at either end, \<open>SLL_InsertBefore\<close> and \<open>SLL_InsertAfter\<close> insert it before
  or after the first node holding the target (nothing when there is none),
  \<open>SLL_DeleteFront\<close> removes the first value, \<open>SLL_DeleteBack\<close> never dereferences nil and
  removes the last value, and \<open>SLL_DeleteByValue\<close> removes every occurrence of the value.
\<close>

theorem sll_operations:
  "sll_reachable s \<Longrightarrow>
   sll_head (SLL_PushFront s v) = v # sll_head s \<and>
   sll_head (SLL_PushBack s v) = sll_head s @ [v] \<and>
   sll_head (SLL_InsertBefore s t v) = ins_before t v (sll_head s) \<and>
   sll_head (SLL_InsertAfter s t v) = ins_after t v (sll_head s) \<and>
   sll_head (SLL_DeleteFront s) = tl (sll_head s) \<and>
   (\<exists>s'. SLL_DeleteBack s = Some s' \<and> sll_head s' = butlast (sll_head s)) \<and>
   sll_head (SLL_DeleteByValue s v) = filter (\<lambda>x. x \<noteq> v) (sll_head s)"
  using sll_reachable_inv [of s] by (simp add: container_simps)

theorem sll_operations_witness:
  "sll_head (SLL_InsertBefore \<lparr>sll_name = ''l'', sll_head = [''a'', ''b''], sll_tail = Some 1\<rparr> ''b'' ''x'') =
     [''a'', ''x'', ''b''] \<and>
   (\<exists>s'. SLL_DeleteBack \<lparr>sll_name = ''l'', sll_head = [''a'', ''b''], sll_tail = Some 1\<rparr> = Some s' \<and>
      sll_head s' = [''a''])"
  using sll_operations [OF example_sll_reachable, of "''x''" "''b''"] by simp

text \<open>
  C27. Tail and search: on every reachable list \<open>tail\<close> denotes the last node (nil
  exactly when the list is empty), and \<open>SLL_FindByValue\<close> returns nil exactly when no node
  holds the value and otherwise the first node that holds it.
\<close>

theorem sll_tail_and_find:
  "sll_reachable s \<Longrightarrow>
   sll_tail s = (if sll_head s = [] then None else Some (length (sll_head s) - 1)) \<and>
   (SLL_FindByValue s v = None \<longleftrightarrow> v \<notin> set (sll_head s)) \<and>
   (SLL_FindByValue s v = Some p \<longrightarrow>
      p < length (sll_head s) \<and> sll_head s ! p = v \<and> v \<notin> set (take p (sll_head s)))"
  using sll_reachable_inv [of s] FindByValue_first [of s v p]
  by (simp add: sll_inv_def last_pos_def)

theorem sll_tail_and_find_witness:
  "sll_tail \<lparr>sll_name = ''l'', sll_head = [''a'', ''b''], sll_tail = Some 1\<rparr> = Some 1 \<and>
   SLL_FindByValue \<lparr>sll_name = ''l'', sll_head = [''a'', ''b''], sll_tail = Some 1\<rparr> ''b'' = Some 1"
  using sll_tail_and_find [OF example_sll_reachable, of "''b''" 1]
  by (simp add: SLL_FindByValue_def)

end
