(* ===== verification/Doubly_Linked_List.thy ===== *)
theory Doubly_Linked_List
  imports Prelude
begin

text \<open>
  The doubly linked list of \<^verbatim>\<open>src/doubly_linked_list.go\<close>. Its methods rewire
  \<open>Prev\<close> and \<open>Next\<close> pointers of nodes that several pointers alias, so the model keeps
  an explicit store: \<open>dll_heap\<close> maps addresses to \<open>DLLNode\<close>s, the list holds the
  addresses of \<open>head\<close> and \<open>tail\<close>, and \<open>dll_alloc\<close> is the next address the
  allocator hands out for \<open>&DLLNode{...}\<close>. Reading or writing a field through nil (or
  through an address the store does not hold) panics in Go and is \<open>None\<close> here, so the
  methods run in the option monad. A loop that follows \<open>Next\<close> pointers need not end on
  an arbitrary store (a cycle), so each one is a \<open>partial_function (option)\<close>, where
  running forever is also \<open>None\<close>; the lemmas below show that on a well-formed list every
  loop returns.
\<close>

type_synonym addr = nat

record dll_node =
  dll_data :: string
  dll_prev :: "addr option"
  dll_next :: "addr option"

type_synonym node_heap = "addr \<Rightarrow> dll_node option"

record dll =
  dll_name :: string
  dll_heap :: node_heap
  dll_head :: "addr option"
  dll_tail :: "addr option"
  dll_alloc :: addr

text \<open>Dereferencing a pointer and assigning the \<open>Prev\<close> or \<open>Next\<close> field of the node it points to.\<close>

definition deref :: "node_heap \<Rightarrow> addr option \<Rightarrow> dll_node option" where
  "deref h p = (case p of None \<Rightarrow> None | Some a \<Rightarrow> h a)"

definition set_prev :: "dll \<Rightarrow> addr option \<Rightarrow> addr option \<Rightarrow> dll option" where
  "set_prev d p q =
     map_option (\<lambda>nd. d\<lparr>dll_heap := (dll_heap d)(the p \<mapsto> nd\<lparr>dll_prev := q\<rparr>)\<rparr>) (deref (dll_heap d) p)"

definition set_next :: "dll \<Rightarrow> addr option \<Rightarrow> addr option \<Rightarrow> dll option" where
  "set_next d p q =
     map_option (\<lambda>nd. d\<lparr>dll_heap := (dll_heap d)(the p \<mapsto> nd\<lparr>dll_next := q\<rparr>)\<rparr>) (deref (dll_heap d) p)"

definition new_node :: "dll \<Rightarrow> dll_node \<Rightarrow> addr \<times> dll" where
  "new_node d nd =
     (dll_alloc d, d\<lparr>dll_heap := (dll_heap d)(dll_alloc d \<mapsto> nd), dll_alloc := Suc (dll_alloc d)\<rparr>)"

definition NewDoublyLinkedList :: "string \<Rightarrow> dll" where
  "NewDoublyLinkedList name =
     \<lparr>dll_name = name, dll_heap = (\<lambda>_. None), dll_head = None, dll_tail = None, dll_alloc = 0\<rparr>"

definition DLL_PushFront :: "dll \<Rightarrow> string \<Rightarrow> dll option" where
  "DLL_PushFront d value =
     (let (n, d1) = new_node d \<lparr>dll_data = value, dll_prev = None, dll_next = dll_head d\<rparr>
      in do {
        d2 \<leftarrow> (if dll_head d1 \<noteq> None then set_prev d1 (dll_head d1) (Some n) else Some d1);
        let d3 = d2\<lparr>dll_head := Some n\<rparr>;
        Some (if dll_tail d3 = None then d3\<lparr>dll_tail := Some n\<rparr> else d3)
      })"

definition DLL_PushBack :: "dll \<Rightarrow> string \<Rightarrow> dll option" where
  "DLL_PushBack d value =
     (let (n, d1) = new_node d \<lparr>dll_data = value, dll_prev = dll_tail d, dll_next = None\<rparr>
      in do {
        d2 \<leftarrow> (if dll_tail d1 \<noteq> None then set_next d1 (dll_tail d1) (Some n) else Some d1);
        let d3 = d2\<lparr>dll_tail := Some n\<rparr>;
        Some (if dll_head d3 = None then d3\<lparr>dll_head := Some n\<rparr> else d3)
      })"

text \<open>
  \<open>for current != nil && current.Data != target { current = current.Next }\<close>: the
  node the walk stops at, nil when it runs off the end.
\<close>

partial_function (option) findFrom :: "node_heap \<Rightarrow> string \<Rightarrow> addr option \<Rightarrow> addr option option" where
  "findFrom h target current =
     (case current of
        None \<Rightarrow> Some None
      | Some c \<Rightarrow> do {
          nd \<leftarrow> h c;
          if dll_data nd \<noteq> target then findFrom h target (dll_next nd) else Some (Some c)
        })"

definition DLL_InsertBefore :: "dll \<Rightarrow> string \<Rightarrow> string \<Rightarrow> dll option" where
  "DLL_InsertBefore d target value = do {
     current \<leftarrow> findFrom (dll_heap d) target (dll_head d);
     if current = None then Some d
     else do {
       cur \<leftarrow> deref (dll_heap d) current;
       let (n, d1) = new_node d \<lparr>dll_data = value, dll_prev = dll_prev cur, dll_next = current\<rparr>;
       d2 \<leftarrow> (if dll_prev cur \<noteq> None then set_next d1 (dll_prev cur) (Some n)
              else Some (d1\<lparr>dll_head := Some n\<rparr>));
       set_prev d2 current (Some n)
     }
   }"

definition DLL_InsertAfter :: "dll \<Rightarrow> string \<Rightarrow> string \<Rightarrow> dll option" where
  "DLL_InsertAfter d target value = do {
     current \<leftarrow> findFrom (dll_heap d) target (dll_head d);
     if current = None then Some d
     else do {
       cur \<leftarrow> deref (dll_heap d) current;
       let (n, d1) = new_node d \<lparr>dll_data = value, dll_prev = current, dll_next = dll_next cur\<rparr>;
       d2 \<leftarrow> (if dll_next cur \<noteq> None then set_prev d1 (dll_next cur) (Some n)
              else Some (d1\<lparr>dll_tail := Some n\<rparr>));
       set_next d2 current (Some n)
     }
   }"

definition DLL_DeleteFront :: "dll \<Rightarrow> dll option" where
  "DLL_DeleteFront d =
     (if dll_head d = None then Some d
      else do {
        hd_node \<leftarrow> deref (dll_heap d) (dll_head d);
        let d1 = d\<lparr>dll_head := dll_next hd_node\<rparr>;
        if dll_head d1 \<noteq> None then set_prev d1 (dll_head d1) None
        else Some (d1\<lparr>dll_tail := None\<rparr>)
      })"

definition DLL_DeleteBack :: "dll \<Rightarrow> dll option" where
  "DLL_DeleteBack d =
     (if dll_tail d = None then Some d
      else do {
        tl_node \<leftarrow> deref (dll_heap d) (dll_tail d);
        let d1 = d\<lparr>dll_tail := dll_prev tl_node\<rparr>;
        if dll_tail d1 \<noteq> None then set_next d1 (dll_tail d1) None
        else Some (d1\<lparr>dll_head := None\<rparr>)
      })"

text \<open>
  The body of the \<open>if current.Data == value\<close> branch of \<open>DLL_DeleteByValue\<close>: the node
  \<open>current\<close> (at address \<open>c\<close>) is unlinked by pointing its neighbours (or \<open>head\<close>,
  \<open>tail\<close>) past it. Each field of \<open>current\<close> is read from the store as it is when
  the code reads it.
\<close>

definition unlinkNode :: "dll \<Rightarrow> addr \<Rightarrow> dll option" where
  "unlinkNode d c = do {
     cur \<leftarrow> dll_heap d c;
     d1 \<leftarrow> (if dll_prev cur \<noteq> None then set_next d (dll_prev cur) (dll_next cur)
            else Some (d\<lparr>dll_head := dll_next cur\<rparr>));
     cur1 \<leftarrow> dll_heap d1 c;
     if dll_next cur1 \<noteq> None then set_prev d1 (dll_next cur1) (dll_prev cur1)
     else Some (d1\<lparr>dll_tail := dll_prev cur1\<rparr>)
   }"

text \<open>
  The loop of \<open>DLL_DeleteByValue\<close>: unlink \<open>current\<close> when it holds the value, then
  follow its own \<open>Next\<close>, which the unlinking leaves as it was.
\<close>

partial_function (option) deleteLoop :: "dll \<Rightarrow> string \<Rightarrow> addr option \<Rightarrow> dll option" where
  "deleteLoop d value current =
     (case current of
        None \<Rightarrow> Some d
      | Some c \<Rightarrow> do {
          cur \<leftarrow> dll_heap d c;
          d2 \<leftarrow> (if dll_data cur = value then unlinkNode d c else Some d);
          cur' \<leftarrow> dll_heap d2 c;
          deleteLoop d2 value (dll_next cur')
        })"

definition DLL_DeleteByValue :: "dll \<Rightarrow> string \<Rightarrow> dll option" where
  "DLL_DeleteByValue d value = deleteLoop d value (dll_head d)"

text \<open>\<open>DLL_FindByValue\<close> walks as the loop of \<open>DLL_InsertBefore\<close> does and returns the node it stops at.\<close>

definition DLL_FindByValue :: "dll \<Rightarrow> string \<Rightarrow> addr option option" where
  "DLL_FindByValue d value = findFrom (dll_heap d) value (dll_head d)"

text \<open>
  The traversals of \<open>PrintForward\<close> and \<open>PrintBackward\<close>: the values they print, in
  order.
\<close>

partial_function (option) walkNext :: "node_heap \<Rightarrow> addr option \<Rightarrow> string list option" where
  "walkNext h current =
     (case current of
        None \<Rightarrow> Some []
      | Some c \<Rightarrow> do { nd \<leftarrow> h c; rest \<leftarrow> walkNext h (dll_next nd); Some (dll_data nd # rest) })"

partial_function (option) walkPrev :: "node_heap \<Rightarrow> addr option \<Rightarrow> string list option" where
  "walkPrev h current =
     (case current of
        None \<Rightarrow> Some []
      | Some c \<Rightarrow> do { nd \<leftarrow> h c; rest \<leftarrow> walkPrev h (dll_prev nd); Some (dll_data nd # rest) })"

definition PrintForward :: "dll \<Rightarrow> string list option" where
  "PrintForward d = walkNext (dll_heap d) (dll_head d)"

definition PrintBackward :: "dll \<Rightarrow> string list option" where
  "PrintBackward d = walkPrev (dll_heap d) (dll_tail d)"

definition DLL_IsEmpty :: "dll \<Rightarrow> bool" where
  "DLL_IsEmpty d \<longleftrightarrow> dll_head d = None"

definition DLL_Cleanup :: "dll \<Rightarrow> dll" where
  "DLL_Cleanup d = d\<lparr>dll_head := None, dll_tail := None\<rparr>"

section \<open>Well-formed lists\<close>

text \<open>
  \<open>dls h p as nx\<close>: the addresses \<open>as\<close> form a doubly linked segment in the store
  \<open>h\<close> whose first node points back to \<open>p\<close> and whose last node points on to \<open>nx\<close>.
  A well-formed list (\<open>dll_repr d as\<close>) is one segment from nil to nil through
  distinct, already allocated addresses, with \<open>head\<close> and \<open>tail\<close> at its ends; its
  values are \<open>dll_values\<close>.
\<close>

fun dls :: "node_heap \<Rightarrow> addr option \<Rightarrow> addr list \<Rightarrow> addr option \<Rightarrow> bool" where
  "dls h p [] nx = True"
| "dls h p (a # as) nx =
     (case h a of
        None \<Rightarrow> False
      | Some nd \<Rightarrow> dll_prev nd = p \<and> dll_next nd = (case as of [] \<Rightarrow> nx | b # _ \<Rightarrow> Some b) \<and>
                   dls h (Some a) as nx)"

definition first_opt :: "'a list \<Rightarrow> 'a option" where
  "first_opt xs = (case xs of [] \<Rightarrow> None | x # _ \<Rightarrow> Some x)"

definition last_opt :: "'a list \<Rightarrow> 'a option" where
  "last_opt xs = (if xs = [] then None else Some (last xs))"

definition dll_repr :: "dll \<Rightarrow> addr list \<Rightarrow> bool" where
  "dll_repr d as \<longleftrightarrow>
     dls (dll_heap d) None as None \<and> distinct as \<and>
     dll_head d = first_opt as \<and> dll_tail d = last_opt as \<and> list_all (\<lambda>a. a < dll_alloc d) as"

definition dll_values :: "node_heap \<Rightarrow> addr list \<Rightarrow> string list" where
  "dll_values h as = map (\<lambda>a. dll_data (the (h a))) as"

lemma first_last_opt_simps [simp]:
  "first_opt [] = None" "first_opt (x # xs) = Some x"
  "last_opt [] = None" "last_opt [x] = Some x" "last_opt (xs @ [x]) = Some x"
  by (simp_all add: first_opt_def last_opt_def)

lemma first_opt_append [simp]: "xs \<noteq> [] \<Longrightarrow> first_opt (xs @ ys) = first_opt xs"
  by (cases xs) simp_all

lemma first_opt_append_Cons [simp]: "first_opt (xs @ y # ys) = Some (hd (xs @ [y]))"
  by (cases xs) simp_all

lemma dls_upd_notin [simp]:
  "a \<notin> set as \<Longrightarrow> dls (h(a \<mapsto> x)) p as nx = dls h p as nx"
  by (induction as arbitrary: p) (auto split: option.splits)

lemma dls_append:
  "dls h p (xs @ ys) nx \<longleftrightarrow>
   dls h p xs (case ys of [] \<Rightarrow> nx | b # _ \<Rightarrow> Some b) \<and>
   dls h (if xs = [] then p else Some (last xs)) ys nx"
  by (induction xs arbitrary: p) (auto split: option.splits list.splits)

lemma dls_in_heap: "dls h p as nx \<Longrightarrow> a \<in> set as \<Longrightarrow> \<exists>nd. h a = Some nd"
  by (induction as arbitrary: p) (auto split: option.splits)

lemma dll_values_upd_notin [simp]:
  "a \<notin> set as \<Longrightarrow> dll_values (h(a \<mapsto> x)) as = dll_values h as"
  by (simp add: dll_values_def)

lemma fresh_notin: "list_all (\<lambda>a. a < n) as \<Longrightarrow> (n::addr) \<notin> set as"
  by (induction as) auto

lemma dll_repr_fresh:
  "dll_repr d as \<Longrightarrow> dll_alloc d \<notin> set as"
  by (simp add: dll_repr_def fresh_notin)

lemma list_all_less_Suc: "list_all (\<lambda>a. a < n) as \<Longrightarrow> list_all (\<lambda>a. a < Suc (n::addr)) as"
  by (induction as) auto

lemma PushFront_repr:
  assumes r: "dll_repr d as"
  shows "\<exists>d'. DLL_PushFront d v = Some d' \<and> dll_repr d' (dll_alloc d # as) \<and>
    dll_values (dll_heap d') (dll_alloc d # as) = v # dll_values (dll_heap d) as \<and>
    dll_name d' = dll_name d"
proof (cases as)
  case Nil
  with r show ?thesis
    by (simp add: DLL_PushFront_def new_node_def dll_repr_def dll_values_def)
next
  case (Cons a as0)
  let ?n = "dll_alloc d"
  from r Cons obtain nda where ha: "dll_heap d a = Some nda"
    using dls_in_heap [of "dll_heap d" None as None a] by (auto simp: dll_repr_def)
  have fresh: "?n \<notin> set as" using r by (rule dll_repr_fresh)
  with Cons have na: "?n \<noteq> a" "?n \<notin> set as0" by auto
  have dist: "a \<notin> set as0" "distinct as0" using r Cons by (auto simp: dll_repr_def)
  from r Cons ha have links: "dll_prev nda = None" "dll_next nda = first_opt as0"
      "dls (dll_heap d) (Some a) as0 None"
    by (auto simp: dll_repr_def first_opt_def split: list.splits)
  from r Cons have ht: "dll_head d = Some a" "dll_tail d \<noteq> None"
    by (auto simp: dll_repr_def last_opt_def)
  show ?thesis
    using r Cons ha na dist links ht
    by (auto simp: DLL_PushFront_def new_node_def set_prev_def deref_def dll_repr_def dll_values_def
                   first_opt_def last_opt_def list_all_less_Suc split: list.splits)
qed

lemma PushBack_repr:
  assumes r: "dll_repr d as"
  shows "\<exists>d'. DLL_PushBack d v = Some d' \<and> dll_repr d' (as @ [dll_alloc d]) \<and>
    dll_values (dll_heap d') (as @ [dll_alloc d]) = dll_values (dll_heap d) as @ [v] \<and>
    dll_name d' = dll_name d"
proof (cases as rule: rev_cases)
  case Nil
  with r show ?thesis
    by (simp add: DLL_PushBack_def new_node_def dll_repr_def dll_values_def)
next
  case (snoc as0 a)
  let ?n = "dll_alloc d"
  from r snoc obtain nda where ha: "dll_heap d a = Some nda"
    using dls_in_heap [of "dll_heap d" None as None a] by (auto simp: dll_repr_def)
  have fresh: "?n \<notin> set as" using r by (rule dll_repr_fresh)
  with snoc have na: "?n \<noteq> a" "?n \<notin> set as0" by auto
  have dist: "a \<notin> set as0" "distinct as0" using r snoc by (auto simp: dll_repr_def)
  from r snoc ha have links: "dll_next nda = None" "dll_prev nda = last_opt as0"
      "dls (dll_heap d) None as0 (Some a)"
    by (auto simp: dll_repr_def dls_append last_opt_def split: if_splits)
  from r snoc have ht: "dll_tail d = Some a" "dll_head d \<noteq> None"
    by (auto simp: dll_repr_def first_opt_def split: list.splits)
  show ?thesis
    using r snoc ha na dist links ht
    by (auto simp: DLL_PushBack_def new_node_def set_next_def deref_def dll_repr_def dll_values_def
                   dls_append last_opt_def list_all_less_Suc)
qed

lemma dll_values_upd_same_data:
  "h a = Some nd \<Longrightarrow> dll_data nd' = dll_data nd \<Longrightarrow> dll_values (h(a \<mapsto> nd')) as = dll_values h as"
  by (simp add: dll_values_def)

lemma DeleteFront_repr:
  assumes r: "dll_repr d as"
  shows "\<exists>d'. DLL_DeleteFront d = Some d' \<and> dll_repr d' (tl as) \<and>
    dll_values (dll_heap d') (tl as) = tl (dll_values (dll_heap d) as) \<and> dll_name d' = dll_name d"
proof (cases as)
  case Nil
  with r show ?thesis by (simp add: DLL_DeleteFront_def dll_repr_def dll_values_def)
next
  case (Cons a as0)
  from r Cons obtain nda where ha: "dll_heap d a = Some nda"
    using dls_in_heap [of "dll_heap d" None as None a] by (auto simp: dll_repr_def)
  from r Cons ha have links: "dll_next nda = first_opt as0" "dls (dll_heap d) (Some a) as0 None"
    by (auto simp: dll_repr_def first_opt_def split: list.splits)
  have dist: "a \<notin> set as0" "distinct as0" using r Cons by (auto simp: dll_repr_def)
  show ?thesis
  proof (cases as0)
    case Nil
    with r Cons ha links show ?thesis
      by (simp add: DLL_DeleteFront_def deref_def dll_repr_def dll_values_def)
  next
    case (Cons b as1)
    from links Cons obtain ndb where hb: "dll_heap d b = Some ndb"
      by (auto split: option.splits)
    from links Cons hb have "dll_next ndb = first_opt as1" "dls (dll_heap d) (Some b) as1 None"
      by (auto simp: first_opt_def split: list.splits)
    moreover have "b \<notin> set as1" "distinct as1" using dist Cons by auto
    ultimately show ?thesis
      using r \<open>as = a # as0\<close> Cons ha hb links
      by (auto simp: DLL_DeleteFront_def deref_def set_prev_def dll_repr_def dll_values_def
                     first_opt_def last_opt_def split: list.splits)
  qed
qed

lemma DeleteBack_repr:
  assumes r: "dll_repr d as"
  shows "\<exists>d'. DLL_DeleteBack d = Some d' \<and> dll_repr d' (butlast as) \<and>
    dll_values (dll_heap d') (butlast as) = butlast (dll_values (dll_heap d) as) \<and>
    dll_name d' = dll_name d"
proof (cases as rule: rev_cases)
  case Nil
  with r show ?thesis by (simp add: DLL_DeleteBack_def dll_repr_def dll_values_def)
next
  case (snoc as0 a)
  from r snoc obtain nda where ha: "dll_heap d a = Some nda"
    using dls_in_heap [of "dll_heap d" None as None a] by (auto simp: dll_repr_def)
  from r snoc ha have links: "dll_prev nda = last_opt as0" "dls (dll_heap d) None as0 (Some a)"
    by (auto simp: dll_repr_def dls_append last_opt_def split: if_splits)
  have dist: "a \<notin> set as0" "distinct as0" using r snoc by (auto simp: dll_repr_def)
  show ?thesis
  proof (cases as0 rule: rev_cases)
    case Nil
    with r snoc ha links show ?thesis
      by (simp add: DLL_DeleteBack_def deref_def dll_repr_def dll_values_def)
  next
    case (snoc as1 b)
    from links snoc obtain ndb where hb: "dll_heap d b = Some ndb"
      using dls_in_heap [of "dll_heap d" None as0 "Some a" b] by auto
    from links snoc hb have "dll_prev ndb = last_opt as1" "dls (dll_heap d) None as1 (Some b)"
      by (auto simp: dls_append last_opt_def split: if_splits)
    moreover have "b \<notin> set as1" "distinct as1" using dist snoc by auto
    ultimately show ?thesis
      using r \<open>as = as0 @ [a]\<close> snoc ha hb links
      by (auto simp: DLL_DeleteBack_def deref_def set_next_def dll_repr_def dll_values_def
                     dls_append last_opt_def butlast_append)
  qed
qed

lemma dll_values_append [simp]:
  "dll_values h (xs @ ys) = dll_values h xs @ dll_values h ys"
  "dll_values h (a # as) = dll_data (the (h a)) # dll_values h as"
  "dll_values h [] = []"
  by (simp_all add: dll_values_def)

lemma findFrom_absent:
  "dls h p as None \<Longrightarrow> t \<notin> set (dll_values h as) \<Longrightarrow> findFrom h t (first_opt as) = Some None"
proof (induction as arbitrary: p)
  case Nil
  then show ?case by (simp add: findFrom.simps)
next
  case (Cons a as)
  then obtain nd where "h a = Some nd" "dll_next nd = first_opt as" "dls h (Some a) as None"
    by (auto simp: first_opt_def split: option.splits list.splits)
  with Cons show ?case by (subst findFrom.simps) auto
qed

lemma findFrom_found:
  "dls h p as None \<Longrightarrow> t \<in> set (dll_values h as) \<Longrightarrow>
   \<exists>xs c ys. as = xs @ c # ys \<and> t \<notin> set (dll_values h xs) \<and> dll_data (the (h c)) = t \<and>
     findFrom h t (first_opt as) = Some (Some c)"
proof (induction as arbitrary: p)
  case (Cons a as)
  then obtain nd where nd: "h a = Some nd" "dll_next nd = first_opt as" "dls h (Some a) as None"
    by (auto simp: first_opt_def split: option.splits list.splits)
  show ?case
  proof (cases "dll_data nd = t")
    case True
    with nd show ?thesis
      by (intro exI [of _ "[]"] exI [of _ a] exI [of _ as]) (subst findFrom.simps, simp)
  next
    case False
    with Cons.prems nd have "t \<in> set (dll_values h as)" by simp
    from Cons.IH [OF nd(3) this] obtain xs c ys where
      "as = xs @ c # ys" "t \<notin> set (dll_values h xs)" "dll_data (the (h c)) = t"
      "findFrom h t (first_opt as) = Some (Some c)" by blast
    with nd False show ?thesis
      by (intro exI [of _ "a # xs"] exI [of _ c] exI [of _ ys]) (subst findFrom.simps, simp)
  qed
qed simp

lemma ins_before_split: "t \<notin> set xs \<Longrightarrow> ins_before t v (xs @ t # ys) = xs @ v # t # ys"
  by (induction xs) auto

lemma ins_after_split: "t \<notin> set xs \<Longrightarrow> ins_after t v (xs @ t # ys) = xs @ t # v # ys"
  by (induction xs) auto

lemma dls_split:
  "dls h p (xs @ c # ys) nx \<longleftrightarrow>
   (\<exists>nd. h c = Some nd \<and> dll_prev nd = (if xs = [] then p else Some (last xs)) \<and>
      dll_next nd = (case ys of [] \<Rightarrow> nx | b # _ \<Rightarrow> Some b) \<and>
      dls h p xs (Some c) \<and> dls h (Some c) ys nx)"
  by (auto simp: dls_append split: option.splits)

lemma InsertBefore_repr:
  assumes r: "dll_repr d as"
  shows "\<exists>d' as'. DLL_InsertBefore d t v = Some d' \<and> dll_repr d' as' \<and>
    dll_values (dll_heap d') as' = ins_before t v (dll_values (dll_heap d) as) \<and> dll_name d' = dll_name d"
proof (cases "t \<in> set (dll_values (dll_heap d) as)")
  case False
  with r have "findFrom (dll_heap d) t (dll_head d) = Some None"
    using findFrom_absent [of "dll_heap d" None as t] by (simp add: dll_repr_def)
  with r False show ?thesis by (auto simp: DLL_InsertBefore_def)
next
  case True
  let ?h = "dll_heap d" and ?n = "dll_alloc d"
  from r True obtain xs c ys where as: "as = xs @ c # ys" and tx: "t \<notin> set (dll_values ?h xs)"
    and tc: "dll_data (the (?h c)) = t" and ff: "findFrom ?h t (dll_head d) = Some (Some c)"
    using findFrom_found [of ?h None as t] by (auto simp: dll_repr_def)
  from r as obtain ndc where hc: "?h c = Some ndc"
    and pc: "dll_prev ndc = (if xs = [] then None else Some (last xs))"
    and nc: "dll_next ndc = (case ys of [] \<Rightarrow> None | b # _ \<Rightarrow> Some b)"
    and sx: "dls ?h None xs (Some c)" and sy: "dls ?h (Some c) ys None"
    by (auto simp: dll_repr_def dls_split)
  have fresh: "?n \<notin> set as" using r by (rule dll_repr_fresh)
  have dc: "dll_data ndc = t" using tc hc by simp
  have vals: "ins_before t v (dll_values ?h as) = dll_values ?h xs @ v # t # dll_values ?h ys"
    using as tx tc by (simp add: ins_before_split)
  show ?thesis
  proof (cases xs rule: rev_cases)
    case Nil
    have "\<exists>d'. DLL_InsertBefore d t v = Some d' \<and> dll_repr d' (?n # c # ys) \<and>
        dll_values (dll_heap d') (?n # c # ys) = ins_before t v (dll_values ?h as) \<and>
        dll_name d' = dll_name d"
      using r as Nil hc pc nc sy fresh vals ff dc
      by (auto simp: DLL_InsertBefore_def new_node_def set_prev_def deref_def dll_repr_def
                     list_all_less_Suc last_opt_def split: list.splits)
    then show ?thesis by blast
  next
    case (snoc xs0 p)
    from sx snoc obtain ndp where hp: "?h p = Some ndp"
      and pp: "dll_prev ndp = (if xs0 = [] then None else Some (last xs0))"
      and np: "dll_next ndp = Some c" and sx0: "dls ?h None xs0 (Some p)"
      by (auto simp: dls_append split: option.splits)
    have dist: "distinct (xs0 @ p # c # ys)" using r as snoc by (simp add: dll_repr_def)
    have "\<exists>d'. DLL_InsertBefore d t v = Some d' \<and> dll_repr d' (xs0 @ p # ?n # c # ys) \<and>
        dll_values (dll_heap d') (xs0 @ p # ?n # c # ys) = ins_before t v (dll_values ?h as) \<and>
        dll_name d' = dll_name d"
      using r as snoc hc hp pc pp nc np sx0 sy fresh vals ff dist dc
      by (auto simp: DLL_InsertBefore_def new_node_def set_prev_def set_next_def deref_def dll_repr_def
                     list_all_less_Suc last_opt_def dls_append split: list.splits)
    then show ?thesis by blast
  qed
qed

lemma InsertAfter_repr:
  assumes r: "dll_repr d as"
  shows "\<exists>d' as'. DLL_InsertAfter d t v = Some d' \<and> dll_repr d' as' \<and>
    dll_values (dll_heap d') as' = ins_after t v (dll_values (dll_heap d) as) \<and> dll_name d' = dll_name d"
proof (cases "t \<in> set (dll_values (dll_heap d) as)")
  case False
  with r have "findFrom (dll_heap d) t (dll_head d) = Some None"
    using findFrom_absent [of "dll_heap d" None as t] by (simp add: dll_repr_def)
  with r False show ?thesis by (auto simp: DLL_InsertAfter_def)
next
  case True
  let ?h = "dll_heap d" and ?n = "dll_alloc d"
  from r True obtain xs c ys where as: "as = xs @ c # ys" and tx: "t \<notin> set (dll_values ?h xs)"
    and tc: "dll_data (the (?h c)) = t" and ff: "findFrom ?h t (dll_head d) = Some (Some c)"
    using findFrom_found [of ?h None as t] by (auto simp: dll_repr_def)
  from r as obtain ndc where hc: "?h c = Some ndc"
    and pc: "dll_prev ndc = (if xs = [] then None else Some (last xs))"
    and nc: "dll_next ndc = (case ys of [] \<Rightarrow> None | b # _ \<Rightarrow> Some b)"
    and sx: "dls ?h None xs (Some c)" and sy: "dls ?h (Some c) ys None"
    by (auto simp: dll_repr_def dls_split)
  have fresh: "?n \<notin> set as" using r by (rule dll_repr_fresh)
  have dc: "dll_data ndc = t" using tc hc by simp
  have vals: "ins_after t v (dll_values ?h as) = dll_values ?h xs @ t # v # dll_values ?h ys"
    using as tx tc by (simp add: ins_after_split)
  have dist: "distinct (xs @ c # ys)" using r as by (simp add: dll_repr_def)
  show ?thesis
  proof (cases ys)
    case Nil
    have "\<exists>d'. DLL_InsertAfter d t v = Some d' \<and> dll_repr d' (xs @ [c, ?n]) \<and>
        dll_values (dll_heap d') (xs @ [c, ?n]) = ins_after t v (dll_values ?h as) \<and>
        dll_name d' = dll_name d"
      using r as Nil hc pc nc sx fresh vals ff dc dist
      by (auto simp: DLL_InsertAfter_def new_node_def set_next_def deref_def dll_repr_def
                     list_all_less_Suc last_opt_def dls_append)
    then show ?thesis by blast
  next
    case (Cons q ys0)
    from sy Cons obtain ndq where hq: "?h q = Some ndq" and pq: "dll_prev ndq = Some c"
      and nq: "dll_next ndq = (case ys0 of [] \<Rightarrow> None | b # _ \<Rightarrow> Some b)"
      and sy0: "dls ?h (Some q) ys0 None"
      by (auto split: option.splits)
    have "\<exists>d'. DLL_InsertAfter d t v = Some d' \<and> dll_repr d' (xs @ c # ?n # q # ys0) \<and>
        dll_values (dll_heap d') (xs @ c # ?n # q # ys0) = ins_after t v (dll_values ?h as) \<and>
        dll_name d' = dll_name d"
      using r as Cons hc hq pc pq nc nq sx sy0 fresh vals ff dc dist
      by (auto simp: DLL_InsertAfter_def new_node_def set_prev_def set_next_def deref_def dll_repr_def
                     list_all_less_Suc last_opt_def dls_append split: list.splits)
    then show ?thesis by blast
  qed
qed

lemma same_data_the:
  "map_option dll_data ((h'::node_heap) a) = map_option dll_data ((h::node_heap) a) \<Longrightarrow>
   dll_data (the (h' a)) = dll_data (the (h a))"
  by (cases "h a"; cases "h' a") simp_all

lemma dll_values_cong:
  "\<forall>a. map_option dll_data ((h'::node_heap) a) = map_option dll_data ((h::node_heap) a) \<Longrightarrow>
   dll_values h' as = dll_values h as"
  unfolding dll_values_def by (intro map_cong refl same_data_the) blast

text \<open>
  Unlinking a node keeps the list well formed without it, leaves the node itself and
  every node's value as they were.
\<close>

lemma last_opt_append_Cons: "last_opt (xs @ y # ys) = (if ys = [] then Some y else last_opt ys)"
  by (simp add: last_opt_def)

lemma last_opt_Cons_Cons: "last_opt (x # y # ys) = last_opt (y # ys)"
  by (simp add: last_opt_def)

lemma unlinkNode_repr:
  assumes r: "dll_repr d (ks @ c # ss)"
  shows "\<exists>d2. unlinkNode d c = Some d2 \<and> dll_repr d2 (ks @ ss) \<and> dll_heap d2 c = dll_heap d c \<and>
    (\<forall>a. map_option dll_data (dll_heap d2 a) = map_option dll_data (dll_heap d a)) \<and>
    dll_name d2 = dll_name d"
proof -
  let ?h = "dll_heap d"
  from r obtain ndc where hc: "?h c = Some ndc"
    and pc: "dll_prev ndc = (if ks = [] then None else Some (last ks))"
    and nc: "dll_next ndc = (case ss of [] \<Rightarrow> None | b # _ \<Rightarrow> Some b)"
    and sk: "dls ?h None ks (Some c)" and sy: "dls ?h (Some c) ss None"
    by (auto simp: dll_repr_def dls_split)
  have dist: "distinct (ks @ c # ss)" and hd: "dll_head d = first_opt (ks @ c # ss)"
    and tl: "dll_tail d = last_opt (ks @ c # ss)"
    and al: "list_all (\<lambda>a. a < dll_alloc d) (ks @ c # ss)"
    using r by (simp_all add: dll_repr_def)
  show ?thesis
  proof (cases ks rule: rev_cases)
    case Nil
    show ?thesis
    proof (cases ss)
      case Nil
      with hc pc nc \<open>ks = []\<close> have "unlinkNode d c = Some (d\<lparr>dll_head := None, dll_tail := None\<rparr>)"
        by (simp add: unlinkNode_def)
      with hc \<open>ks = []\<close> Nil show ?thesis by (simp add: dll_repr_def)
    next
      case (Cons q ss1)
      from sy Cons obtain ndq where hq: "?h q = Some ndq" "dll_prev ndq = Some c"
        "dll_next ndq = (case ss1 of [] \<Rightarrow> None | b # _ \<Rightarrow> Some b)" "dls ?h (Some q) ss1 None"
        by (auto split: option.splits)
      have "unlinkNode d c = Some (d\<lparr>dll_head := Some q, dll_heap := ?h(q \<mapsto> ndq\<lparr>dll_prev := None\<rparr>)\<rparr>)"
        using hc pc nc hq \<open>ks = []\<close> Cons by (simp add: unlinkNode_def set_prev_def deref_def)
      moreover have "c \<noteq> q" "q \<notin> set ss1" "c \<notin> set ss1" using dist \<open>ks = []\<close> Cons by auto
      ultimately show ?thesis
        using hq \<open>ks = []\<close> Cons dist tl al
        by (auto simp: dll_repr_def last_opt_def split: list.splits)
    qed
  next
    case (snoc ks0 p)
    from sk snoc obtain ndp where hp: "?h p = Some ndp"
      "dll_prev ndp = (if ks0 = [] then None else Some (last ks0))"
      "dll_next ndp = Some c" "dls ?h None ks0 (Some p)"
      by (auto simp: dls_append split: option.splits)
    have ne: "c \<noteq> p" "p \<notin> set ks0" "c \<notin> set ks0" "p \<notin> set ss" "c \<notin> set ss"
      using dist snoc by auto
    show ?thesis
    proof (cases ss)
      case Nil
      have "unlinkNode d c = Some (d\<lparr>dll_heap := ?h(p \<mapsto> ndp\<lparr>dll_next := None\<rparr>), dll_tail := Some p\<rparr>)"
        using hc pc nc hp snoc Nil ne by (simp add: unlinkNode_def set_next_def deref_def)
      then show ?thesis
        using hp snoc Nil ne dist hd al
        by (auto simp: dll_repr_def dls_append)
    next
      case (Cons q ss1)
      from sy Cons obtain ndq where hq: "?h q = Some ndq" "dll_prev ndq = Some c"
        "dll_next ndq = (case ss1 of [] \<Rightarrow> None | b # _ \<Rightarrow> Some b)" "dls ?h (Some q) ss1 None"
        by (auto split: option.splits)
      have ne2: "q \<noteq> p" "q \<noteq> c" "q \<notin> set ks0" "q \<notin> set ss1" "p \<notin> set ss1" "c \<notin> set ss1"
        using dist snoc Cons by auto
      have "unlinkNode d c = Some (d\<lparr>dll_heap := ?h(p \<mapsto> ndp\<lparr>dll_next := Some q\<rparr>,
                                                 q \<mapsto> ndq\<lparr>dll_prev := Some p\<rparr>)\<rparr>)"
        using hc pc nc hp hq snoc Cons ne ne2 by (simp add: unlinkNode_def set_next_def set_prev_def deref_def)
      then show ?thesis
        using hp hq snoc Cons ne ne2 dist hd tl al
        by (auto simp: dll_repr_def dls_append last_opt_append_Cons last_opt_Cons_Cons)
    qed
  qed
qed

lemma filter_same_data:
  "\<forall>a. map_option dll_data ((h'::node_heap) a) = map_option dll_data ((h::node_heap) a) \<Longrightarrow>
   filter (\<lambda>a. dll_data (the (h' a)) \<noteq> v) as = filter (\<lambda>a. dll_data (the (h a)) \<noteq> v) as"
proof (rule filter_cong [OF refl])
  fix a
  assume "\<forall>a. map_option dll_data (h' a) = map_option dll_data (h a)"
  then show "(dll_data (the (h' a)) \<noteq> v) = (dll_data (the (h a)) \<noteq> v)"
    using same_data_the [of h' a h] by simp
qed

lemma deleteLoop_repr:
  "dll_repr d (ks @ ss) \<Longrightarrow>
   \<exists>d'. deleteLoop d v (first_opt ss) = Some d' \<and>
     dll_repr d' (ks @ filter (\<lambda>a. dll_data (the (dll_heap d a)) \<noteq> v) ss) \<and>
     (\<forall>a. map_option dll_data (dll_heap d' a) = map_option dll_data (dll_heap d a)) \<and>
     dll_name d' = dll_name d"
proof (induction ss arbitrary: d ks)
  case Nil
  then show ?case by (subst deleteLoop.simps) simp
next
  case (Cons c ss0)
  let ?h = "dll_heap d"
  from Cons.prems obtain ndc where hc: "?h c = Some ndc"
    and nc: "dll_next ndc = (case ss0 of [] \<Rightarrow> None | b # _ \<Rightarrow> Some b)"
    by (auto simp: dll_repr_def dls_split)
  have fo: "first_opt ss0 = dll_next ndc" using nc by (simp add: first_opt_def split: list.splits)
  show ?case
  proof (cases "dll_data ndc = v")
    case False
    have "dll_repr d ((ks @ [c]) @ ss0)" using Cons.prems by simp
    from Cons.IH [OF this] obtain d' where
      "deleteLoop d v (first_opt ss0) = Some d'"
      "dll_repr d' ((ks @ [c]) @ filter (\<lambda>a. dll_data (the (?h a)) \<noteq> v) ss0)"
      "\<forall>a. map_option dll_data (dll_heap d' a) = map_option dll_data (?h a)"
      "dll_name d' = dll_name d" by blast
    with hc fo False show ?thesis by (subst deleteLoop.simps) simp
  next
    case True
    from unlinkNode_repr [OF Cons.prems] obtain d2 where
      u: "unlinkNode d c = Some d2" and r2: "dll_repr d2 (ks @ ss0)" and c2: "dll_heap d2 c = ?h c"
      and data2: "\<forall>a. map_option dll_data (dll_heap d2 a) = map_option dll_data (?h a)"
      and n2: "dll_name d2 = dll_name d" by blast
    from Cons.IH [OF r2] obtain d' where
      "deleteLoop d2 v (first_opt ss0) = Some d'"
      "dll_repr d' (ks @ filter (\<lambda>a. dll_data (the (dll_heap d2 a)) \<noteq> v) ss0)"
      "\<forall>a. map_option dll_data (dll_heap d' a) = map_option dll_data (dll_heap d2 a)"
      "dll_name d' = dll_name d2" by blast
    with hc fo True u c2 data2 n2 filter_same_data [OF data2, of v ss0] show ?thesis
      by (subst deleteLoop.simps) simp
  qed
qed

lemma DeleteByValue_repr:
  assumes r: "dll_repr d as"
  shows "\<exists>d' as'. DLL_DeleteByValue d v = Some d' \<and> dll_repr d' as' \<and>
    dll_values (dll_heap d') as' = filter (\<lambda>x. x \<noteq> v) (dll_values (dll_heap d) as) \<and>
    dll_name d' = dll_name d"
proof -
  let ?as' = "filter (\<lambda>a. dll_data (the (dll_heap d a)) \<noteq> v) as"
  have hd: "dll_head d = first_opt as" using r by (simp add: dll_repr_def)
  have "dll_repr d ([] @ as)" using r by simp
  from deleteLoop_repr [OF this, of v] obtain d' where
    l: "deleteLoop d v (first_opt as) = Some d'" and r': "dll_repr d' ?as'"
    and data: "\<forall>a. map_option dll_data (dll_heap d' a) = map_option dll_data (dll_heap d a)"
    and n: "dll_name d' = dll_name d"
    by auto
  have "dll_values (dll_heap d') ?as' = dll_values (dll_heap d) ?as'"
    by (rule dll_values_cong [OF data])
  also have "\<dots> = filter (\<lambda>x. x \<noteq> v) (dll_values (dll_heap d) as)"
    by (simp add: dll_values_def filter_map comp_def)
  finally have "dll_values (dll_heap d') ?as' = filter (\<lambda>x. x \<noteq> v) (dll_values (dll_heap d) as)" .
  moreover have "DLL_DeleteByValue d v = Some d'" using l hd by (simp add: DLL_DeleteByValue_def)
  ultimately show ?thesis using r' n by blast
qed

lemma walkNext_dls:
  "dls h p as None \<Longrightarrow> walkNext h (first_opt as) = Some (dll_values h as)"
proof (induction as arbitrary: p)
  case Nil
  then show ?case by (simp add: walkNext.simps)
next
  case (Cons a as)
  then obtain nd where "h a = Some nd" "dll_next nd = first_opt as" "dls h (Some a) as None"
    by (auto simp: first_opt_def split: option.splits list.splits)
  with Cons.IH show ?case by (subst walkNext.simps) simp
qed

lemma walkPrev_dls:
  "dls h None as nx \<Longrightarrow> walkPrev h (last_opt as) = Some (rev (dll_values h as))"
proof (induction as arbitrary: nx rule: rev_induct)
  case Nil
  then show ?case by (simp add: walkPrev.simps)
next
  case (snoc a as)
  then obtain nd where "h a = Some nd" "dll_prev nd = last_opt as" "dls h None as (Some a)"
    by (auto simp: dls_append last_opt_def split: option.splits)
  with snoc.IH show ?case by (subst walkPrev.simps) simp
qed

lemma dll_repr_print:
  "dll_repr d as \<Longrightarrow>
   PrintForward d = Some (dll_values (dll_heap d) as) \<and>
   PrintBackward d = Some (rev (dll_values (dll_heap d) as))"
  using walkNext_dls [of "dll_heap d" None as] walkPrev_dls [of "dll_heap d" as None]
  by (simp add: dll_repr_def PrintForward_def PrintBackward_def)

lemma FindByValue_repr:
  "dll_repr d as \<Longrightarrow>
   (DLL_FindByValue d v = Some None \<longleftrightarrow> v \<notin> set (dll_values (dll_heap d) as)) \<and>
   (v \<in> set (dll_values (dll_heap d) as) \<longrightarrow>
      (\<exists>xs c ys. as = xs @ c # ys \<and> v \<notin> set (dll_values (dll_heap d) xs) \<and>
         dll_data (the (dll_heap d c)) = v \<and> DLL_FindByValue d v = Some (Some c)))"
  using findFrom_absent [of "dll_heap d" None as v] findFrom_found [of "dll_heap d" None as v]
  by (cases "v \<in> set (dll_values (dll_heap d) as)") (auto simp: dll_repr_def DLL_FindByValue_def)

inductive dll_reachable :: "dll \<Rightarrow> bool" where
  new: "dll_reachable (NewDoublyLinkedList name)"
| push_front: "dll_reachable d \<Longrightarrow> DLL_PushFront d v = Some d' \<Longrightarrow> dll_reachable d'"
| push_back: "dll_reachable d \<Longrightarrow> DLL_PushBack d v = Some d' \<Longrightarrow> dll_reachable d'"
| insert_before: "dll_reachable d \<Longrightarrow> DLL_InsertBefore d t v = Some d' \<Longrightarrow> dll_reachable d'"
| insert_after: "dll_reachable d \<Longrightarrow> DLL_InsertAfter d t v = Some d' \<Longrightarrow> dll_reachable d'"
| delete_front: "dll_reachable d \<Longrightarrow> DLL_DeleteFront d = Some d' \<Longrightarrow> dll_reachable d'"
| delete_back: "dll_reachable d \<Longrightarrow> DLL_DeleteBack d = Some d' \<Longrightarrow> dll_reachable d'"
| delete_by_value: "dll_reachable d \<Longrightarrow> DLL_DeleteByValue d v = Some d' \<Longrightarrow> dll_reachable d'"
| cleanup: "dll_reachable d \<Longrightarrow> dll_reachable (DLL_Cleanup d)"

lemma dll_reachable_repr: "dll_reachable d \<Longrightarrow> \<exists>as. dll_repr d as"
proof (induction rule: dll_reachable.induct)
  case (new name)
  show ?case by (rule exI [of _ "[]"]) (simp add: NewDoublyLinkedList_def dll_repr_def)
next
  case (push_front d v d')
  then obtain as where "dll_repr d as" by blast
  from PushFront_repr [OF this, of v] push_front.hyps(2) show ?case by auto
next
  case (push_back d v d')
  then obtain as where "dll_repr d as" by blast
  from PushBack_repr [OF this, of v] push_back.hyps(2) show ?case by auto
next
  case (insert_before d t v d')
  then obtain as where "dll_repr d as" by blast
  from InsertBefore_repr [OF this, of t v] insert_before.hyps(2) show ?case by auto
next
  case (insert_after d t v d')
  then obtain as where "dll_repr d as" by blast
  from InsertAfter_repr [OF this, of t v] insert_after.hyps(2) show ?case by auto
next
  case (delete_front d d')
  then obtain as where "dll_repr d as" by blast
  from DeleteFront_repr [OF this] delete_front.hyps(2) show ?case by auto
next
  case (delete_back d d')
  then obtain as where "dll_repr d as" by blast
  from DeleteBack_repr [OF this] delete_back.hyps(2) show ?case by auto
next
  case (delete_by_value d v d')
  then obtain as where "dll_repr d as" by blast
  from DeleteByValue_repr [OF this, of v] delete_by_value.hyps(2) show ?case by auto
next
  case (cleanup d)
  show ?case by (rule exI [of _ "[]"]) (simp add: DLL_Cleanup_def dll_repr_def)
qed

lemma example_dll_reachable:
  "dll_reachable (the (DLL_PushBack (the (DLL_PushBack (NewDoublyLinkedList ''l'') ''a'')) ''b''))"
proof -
  have r1: "dll_reachable (the (DLL_PushBack (NewDoublyLinkedList ''l'') ''a''))"
    by (rule dll_reachable.push_back [OF dll_reachable.new, of _ "''a''"])
       (simp add: DLL_PushBack_def new_node_def NewDoublyLinkedList_def)
  show ?thesis
    by (rule dll_reachable.push_back [OF r1, of "''b''"])
       (simp add: DLL_PushBack_def new_node_def NewDoublyLinkedList_def set_next_def deref_def)
qed

section \<open>Properties of the doubly linked list\<close>

text \<open>
  C28. Forward and backward links agree: on every reachable list the walk from
  \<open>head\<close> along \<open>Next\<close> (\<open>PrintForward\<close>) and the walk from \<open>tail\<close> along
  \<open>Prev\<close> (\<open>PrintBackward\<close>) both end without dereferencing nil, and the second visits
  exactly the values of the first in reverse order.
\<close>

theorem dll_links_agree:
  "dll_reachable d \<Longrightarrow> \<exists>xs. PrintForward d = Some xs \<and> PrintBackward d = Some (rev xs)"
  using dll_reachable_repr [of d] dll_repr_print by blast

theorem dll_links_agree_witness:
  "PrintForward (the (DLL_PushBack (the (DLL_PushBack (NewDoublyLinkedList ''l'') ''a'')) ''b'')) = Some [''a'', ''b''] \<and>
   PrintBackward (the (DLL_PushBack (the (DLL_PushBack (NewDoublyLinkedList ''l'') ''a'')) ''b'')) = Some [''b'', ''a'']"
proof -
  have "PrintForward (the (DLL_PushBack (the (DLL_PushBack (NewDoublyLinkedList ''l'') ''a'')) ''b'')) = Some [''a'', ''b'']"
    by (simp add: PrintForward_def DLL_PushBack_def new_node_def NewDoublyLinkedList_def set_next_def deref_def)
       (subst walkNext.simps, simp)+
  then show ?thesis
    using dll_links_agree [OF example_dll_reachable] by auto
qed

lemma dll_forward_repr:
  "dll_reachable d \<Longrightarrow> PrintForward d = Some xs \<Longrightarrow> \<exists>as. dll_repr d as \<and> xs = dll_values (dll_heap d) as"
  using dll_reachable_repr [of d] dll_repr_print by fastforce

lemma repr_values_forward:
  "dll_repr d' as' \<Longrightarrow> dll_values (dll_heap d') as' = ys \<Longrightarrow> PrintForward d' = Some ys"
  using dll_repr_print by blast

text \<open>
  C29. The list operations: on every reachable list whose forward walk gives the values
  \<open>xs\<close>, each method returns without a nil dereference and its result walks forward
  to: \<open>v # xs\<close> (\<open>DLL_PushFront\<close>), \<open>xs @ [v]\<close> (\<open>DLL_PushBack\<close>), \<open>v\<close> inserted before
  or after the first occurrence of the target (\<open>DLL_InsertBefore\<close>, \<open>DLL_InsertAfter\<close>),
  \<open>tl xs\<close> (\<open>DLL_DeleteFront\<close>), \<open>butlast xs\<close> (\<open>DLL_DeleteBack\<close>) and \<open>xs\<close> without every
  occurrence of \<open>v\<close> (\<open>DLL_DeleteByValue\<close>).
\<close>

theorem dll_operations:
  assumes "dll_reachable d" and "PrintForward d = Some xs"
  shows "(\<exists>d'. DLL_PushFront d v = Some d' \<and> PrintForward d' = Some (v # xs)) \<and>
    (\<exists>d'. DLL_PushBack d v = Some d' \<and> PrintForward d' = Some (xs @ [v])) \<and>
    (\<exists>d'. DLL_InsertBefore d t v = Some d' \<and> PrintForward d' = Some (ins_before t v xs)) \<and>
    (\<exists>d'. DLL_InsertAfter d t v = Some d' \<and> PrintForward d' = Some (ins_after t v xs)) \<and>
    (\<exists>d'. DLL_DeleteFront d = Some d' \<and> PrintForward d' = Some (tl xs)) \<and>
    (\<exists>d'. DLL_DeleteBack d = Some d' \<and> PrintForward d' = Some (butlast xs)) \<and>
    (\<exists>d'. DLL_DeleteByValue d v = Some d' \<and> PrintForward d' = Some (filter (\<lambda>x. x \<noteq> v) xs))"
proof -
  from dll_forward_repr [OF assms] obtain as where r: "dll_repr d as"
    and xs: "xs = dll_values (dll_heap d) as" by blast
  show ?thesis
    using PushFront_repr [OF r, of v] PushBack_repr [OF r, of v] InsertBefore_repr [OF r, of t v]
      InsertAfter_repr [OF r, of t v] DeleteFront_repr [OF r] DeleteBack_repr [OF r]
      DeleteByValue_repr [OF r, of v]
    unfolding xs [symmetric] by (blast intro: repr_values_forward)
qed

theorem dll_operations_witness:
  "\<exists>d'. DLL_DeleteBack (the (DLL_PushBack (the (DLL_PushBack (NewDoublyLinkedList ''l'') ''a'')) ''b'')) = Some d' \<and>
     PrintForward d' = Some [''a'']"
proof -
  have "PrintForward (the (DLL_PushBack (the (DLL_PushBack (NewDoublyLinkedList ''l'') ''a'')) ''b'')) = Some [''a'', ''b'']"
    by (simp add: PrintForward_def DLL_PushBack_def new_node_def NewDoublyLinkedList_def set_next_def deref_def)
       (subst walkNext.simps, simp)+
  from dll_operations [OF example_dll_reachable this] show ?thesis by simp
qed

text \<open>
  C30. Search: on every reachable list \<open>DLL_FindByValue\<close> returns (its walk ends), gives
  nil exactly when no value of the forward walk is the searched one, and otherwise a node
  that holds it.
\<close>

theorem dll_find:
  assumes "dll_reachable d" and "PrintForward d = Some xs"
  shows "(DLL_FindByValue d v = Some None \<longleftrightarrow> v \<notin> set xs) \<and>
    (v \<in> set xs \<longrightarrow> (\<exists>c. DLL_FindByValue d v = Some (Some c) \<and> dll_data (the (dll_heap d c)) = v))"
proof -
  from dll_forward_repr [OF assms] obtain as where r: "dll_repr d as"
    and xs: "xs = dll_values (dll_heap d) as" by blast
  show ?thesis using FindByValue_repr [OF r, of v] unfolding xs by blast
qed

theorem dll_find_witness:
  "\<exists>c. DLL_FindByValue (the (DLL_PushBack (the (DLL_PushBack (NewDoublyLinkedList ''l'') ''a'')) ''b'')) ''b'' = Some (Some c)"
proof -
  have "PrintForward (the (DLL_PushBack (the (DLL_PushBack (NewDoublyLinkedList ''l'') ''a'')) ''b'')) = Some [''a'', ''b'']"
    by (simp add: PrintForward_def DLL_PushBack_def new_node_def NewDoublyLinkedList_def set_next_def deref_def)
       (subst walkNext.simps, simp)+
  from dll_find [OF example_dll_reachable this, of "''b''"] show ?thesis by auto
qed

end
