(* ===== verification/Database.thy ===== *)
theory Database
  imports Array Singly_Linked_List Doubly_Linked_List Stack Queue AVL_Tree Hash_Table
begin

text \<open>
  The registry of \<^verbatim>\<open>src/database.go\<close>: one slice of instances per container kind. The
  slices hold pointers, and the command handlers mutate an instance through the pointer
  that \<open>Find*\<close> returns; here \<open>Find*\<close> returns the position of that instance in its
  slice (\<open>None\<close> for nil), and a handler writes the updated instance back at that
  position. Every \<open>Find*\<close> is the same loop over its slice (\<open>findName\<close>): the first
  instance whose \<open>GetName()\<close> equals the name.
\<close>

record database =
  Arrays :: "go_array list"
  SinglyLinkedLists :: "sll list"
  DoublyLinkedLists :: "dll list"
  Stacks :: "stack list"
  Queues :: "queue list"
  Trees :: "avl_tree list"
  HashTables :: "hash_table list"

definition NewDatabase :: database where
  "NewDatabase = \<lparr>Arrays = [], SinglyLinkedLists = [], DoublyLinkedLists = [], Stacks = [],
                  Queues = [], Trees = [], HashTables = []\<rparr>"

fun findName :: "('a \<Rightarrow> string) \<Rightarrow> string \<Rightarrow> 'a list \<Rightarrow> nat \<Rightarrow> nat option" where
  "findName getName name [] i = None"
| "findName getName name (x # xs) i =
     (if getName x = name then Some i else findName getName name xs (Suc i))"

definition FindArray :: "database \<Rightarrow> string \<Rightarrow> nat option" where
  "FindArray d name = findName array_name name (Arrays d) 0"

definition FindSLL :: "database \<Rightarrow> string \<Rightarrow> nat option" where
  "FindSLL d name = findName sll_name name (SinglyLinkedLists d) 0"

definition FindDLL :: "database \<Rightarrow> string \<Rightarrow> nat option" where
  "FindDLL d name = findName dll_name name (DoublyLinkedLists d) 0"

definition FindStack :: "database \<Rightarrow> string \<Rightarrow> nat option" where
  "FindStack d name = findName stack_name name (Stacks d) 0"

definition FindQueue :: "database \<Rightarrow> string \<Rightarrow> nat option" where
  "FindQueue d name = findName queue_name name (Queues d) 0"

definition FindTree :: "database \<Rightarrow> string \<Rightarrow> nat option" where
  "FindTree d name = findName tree_name name (Trees d) 0"

definition FindHashTable :: "database \<Rightarrow> string \<Rightarrow> nat option" where
  "FindHashTable d name = findName ht_name name (HashTables d) 0"

definition AddArray :: "database \<Rightarrow> go_array \<Rightarrow> database" where
  "AddArray d arr = d\<lparr>Arrays := Arrays d @ [arr]\<rparr>"

definition AddSLL :: "database \<Rightarrow> sll \<Rightarrow> database" where
  "AddSLL d s = d\<lparr>SinglyLinkedLists := SinglyLinkedLists d @ [s]\<rparr>"

definition AddDLL :: "database \<Rightarrow> dll \<Rightarrow> database" where
  "AddDLL d l = d\<lparr>DoublyLinkedLists := DoublyLinkedLists d @ [l]\<rparr>"

definition AddStack :: "database \<Rightarrow> stack \<Rightarrow> database" where
  "AddStack d s = d\<lparr>Stacks := Stacks d @ [s]\<rparr>"

definition AddQueue :: "database \<Rightarrow> queue \<Rightarrow> database" where
  "AddQueue d q = d\<lparr>Queues := Queues d @ [q]\<rparr>"

definition AddTree :: "database \<Rightarrow> avl_tree \<Rightarrow> database" where
  "AddTree d t = d\<lparr>Trees := Trees d @ [t]\<rparr>"

definition AddHashTable :: "database \<Rightarrow> hash_table \<Rightarrow> database" where
  "AddHashTable d t = d\<lparr>HashTables := HashTables d @ [t]\<rparr>"

definition Database_Cleanup :: "database \<Rightarrow> database" where
  "Database_Cleanup d = d\<lparr>Arrays := [], SinglyLinkedLists := [], DoublyLinkedLists := [], Stacks := [],
                 Queues := [], Trees := [], HashTables := []\<rparr>"

text \<open>
  A registry is well formed when every instance in it is reachable from its constructor
  by its own methods; the component theories show what that gives for each kind.
\<close>

definition db_ok :: "database \<Rightarrow> bool" where
  "db_ok d \<longleftrightarrow>
     list_all sll_reachable (SinglyLinkedLists d) \<and> list_all dll_reachable (DoublyLinkedLists d) \<and>
     list_all stack_reachable (Stacks d) \<and> list_all queue_reachable (Queues d) \<and>
     list_all tree_reachable (Trees d) \<and> list_all ht_reachable (HashTables d)"

lemma findName_Some:
  "findName f name xs i = Some j \<Longrightarrow>
   \<exists>k. j = i + k \<and> k < length xs \<and> f (xs ! k) = name \<and> (\<forall>m < k. f (xs ! m) \<noteq> name)"
proof (induction xs arbitrary: i)
  case (Cons x xs)
  show ?case
  proof (cases "f x = name")
    case False
    with Cons.prems have "findName f name xs (Suc i) = Some j" by simp
    from Cons.IH [OF this] obtain k where
      "j = Suc i + k" "k < length xs" "f (xs ! k) = name" "\<forall>m < k. f (xs ! m) \<noteq> name" by blast
    with False show ?thesis
      by (intro exI [of _ "Suc k"]) (auto simp: less_Suc_eq_0_disj)
  qed (use Cons.prems in auto)
qed simp

lemma findName_None: "findName f name xs i = None \<longleftrightarrow> name \<notin> f ` set xs"
  by (induction xs arbitrary: i) auto

lemma findName_append:
  "findName f name (xs @ [y]) i =
     (case findName f name xs i of
        None \<Rightarrow> (if f y = name then Some (i + length xs) else None)
      | Some j \<Rightarrow> Some j)"
  by (induction xs arbitrary: i) (auto split: option.split)

section \<open>Methods on reachable instances\<close>

text \<open>
  What the registry relies on from each component: on a reachable instance every method
  returns (no panic) and its result is reachable again.
\<close>

named_theorems reach_ok "methods of reachable instances return reachable instances"

lemma tree_Insert_ok [reach_ok]:
  "tree_reachable t \<Longrightarrow> \<exists>t'. AVLTree_Insert t v = Some t' \<and> tree_reachable t'"
  using tree_reachable_avl [of t] Insert_correct [of t v] tree_reachable.insert [of t v] by blast

lemma tree_Remove_ok [reach_ok]:
  "tree_reachable t \<Longrightarrow> \<exists>t'. AVLTree_Remove t v = Some t' \<and> tree_reachable t'"
  using tree_reachable_avl [of t] Remove_correct [of t v] tree_reachable.remove [of t v] by blast

lemma queue_Push_ok [reach_ok]:
  "queue_reachable q \<Longrightarrow> \<exists>q'. Queue_Push q v = Some q' \<and> queue_reachable q'"
  using queue_reachable_inv [of q] queue_Push_inv [of q v] queue_reachable.push [of q v] by blast

lemma sll_DeleteBack_ok [reach_ok]:
  "sll_reachable s \<Longrightarrow> \<exists>s'. SLL_DeleteBack s = Some s' \<and> sll_reachable s'"
  using sll_reachable_inv [of s] DeleteBack_inv [of s] sll_reachable.delete_back [of s] by blast

lemma dll_PushFront_ok [reach_ok]:
  "dll_reachable l \<Longrightarrow> \<exists>l'. DLL_PushFront l v = Some l' \<and> dll_reachable l'"
  using dll_reachable_repr [of l] PushFront_repr dll_reachable.push_front [of l v] by blast

lemma dll_PushBack_ok [reach_ok]:
  "dll_reachable l \<Longrightarrow> \<exists>l'. DLL_PushBack l v = Some l' \<and> dll_reachable l'"
  using dll_reachable_repr [of l] PushBack_repr dll_reachable.push_back [of l v] by blast

lemma dll_InsertBefore_ok [reach_ok]:
  "dll_reachable l \<Longrightarrow> \<exists>l'. DLL_InsertBefore l t v = Some l' \<and> dll_reachable l'"
  using dll_reachable_repr [of l] InsertBefore_repr dll_reachable.insert_before [of l t v] by blast

lemma dll_InsertAfter_ok [reach_ok]:
  "dll_reachable l \<Longrightarrow> \<exists>l'. DLL_InsertAfter l t v = Some l' \<and> dll_reachable l'"
  using dll_reachable_repr [of l] InsertAfter_repr dll_reachable.insert_after [of l t v] by blast

lemma dll_DeleteFront_ok [reach_ok]:
  "dll_reachable l \<Longrightarrow> \<exists>l'. DLL_DeleteFront l = Some l' \<and> dll_reachable l'"
  using dll_reachable_repr [of l] DeleteFront_repr dll_reachable.delete_front [of l] by blast

lemma dll_DeleteBack_ok [reach_ok]:
  "dll_reachable l \<Longrightarrow> \<exists>l'. DLL_DeleteBack l = Some l' \<and> dll_reachable l'"
  using dll_reachable_repr [of l] DeleteBack_repr dll_reachable.delete_back [of l] by blast

lemma dll_DeleteByValue_ok [reach_ok]:
  "dll_reachable l \<Longrightarrow> \<exists>l'. DLL_DeleteByValue l v = Some l' \<and> dll_reachable l'"
  using dll_reachable_repr [of l] DeleteByValue_repr dll_reachable.delete_by_value [of l v] by blast

lemma dll_FindByValue_ok [reach_ok]:
  "dll_reachable l \<Longrightarrow> \<exists>r. DLL_FindByValue l v = Some r"
proof -
  assume "dll_reachable l"
  then obtain as where r: "dll_repr l as" using dll_reachable_repr by blast
  show ?thesis
  proof (cases "v \<in> set (dll_values (dll_heap l) as)")
    case True
    then show ?thesis using FindByValue_repr [OF r, of v] by blast
  next
    case False
    then show ?thesis using FindByValue_repr [OF r, of v] by blast
  qed
qed

lemma list_all_update: "list_all P xs \<Longrightarrow> P x \<Longrightarrow> list_all P (xs[i := x])"
  by (induction xs arbitrary: i) (auto split: nat.split)

lemma findName_less: "findName f name xs 0 = Some i \<Longrightarrow> i < length xs"
  using findName_Some [of f name xs 0 i] by auto

lemma list_all_nth_find:
  "list_all P xs \<Longrightarrow> findName f name xs 0 = Some i \<Longrightarrow> P (xs ! i)"
  using findName_less [of f name xs i] by (simp add: list_all_length)

end
