(* ===== verification/Go_Strings.thy ===== *)
theory Go_Strings
  imports Prelude
begin

text \<open>
  The functions of Go's standard library that the dispatcher and the serializer call on
  text: \<open>strings.Fields\<close> (split at white space), \<open>strconv.Atoi\<close> (decimal text to
  \<open>int\<close>) and the decimal formatting of an \<open>int\<close> by \<open>fmt.Println\<close>/\<open>fmt.Sprintf\<close>
  (\<open>show_int\<close>). They follow the library's documented behaviour on the byte strings of
  the model: \<open>Fields\<close> splits at the ASCII white space bytes (space, \<open>\t\<close>, \<open>\n\<close>,
  \<open>\v\<close>, \<open>\f\<close>, \<open>\r\<close>); the Unicode spaces outside ASCII that Go also splits at are
  not modelled. \<open>Atoi\<close> accepts an optional sign and at least one decimal digit and
  fails on anything else and on values outside the 64-bit range.
\<close>

definition is_space :: "char \<Rightarrow> bool" where
  "is_space c \<longleftrightarrow> c = CHR '' '' \<or> ((9::nat) \<le> of_char c \<and> of_char c \<le> (13::nat))"

fun fields_acc :: "string \<Rightarrow> string \<Rightarrow> string list" where
  "fields_acc w [] = (if w = [] then [] else [rev w])"
| "fields_acc w (c # cs) =
     (if is_space c then (if w = [] then fields_acc [] cs else rev w # fields_acc [] cs)
      else fields_acc (c # w) cs)"

definition fields :: "string \<Rightarrow> string list" where
  "fields s = fields_acc [] s"

definition digit_val :: "char \<Rightarrow> nat option" where
  "digit_val c = (if (48::nat) \<le> of_char c \<and> of_char c \<le> (57::nat) then Some (of_char c - 48) else None)"

fun digits_acc :: "int \<Rightarrow> string \<Rightarrow> int option" where
  "digits_acc n [] = Some n"
| "digits_acc n (c # cs) =
     (case digit_val c of None \<Rightarrow> None | Some k \<Rightarrow> digits_acc (10 * n + int k) cs)"

definition atoi :: "string \<Rightarrow> int option" where
  "atoi s =
     (let (neg, ds) = (case s of
                         c # r \<Rightarrow> if c = CHR ''-'' then (True, r)
                                  else if c = CHR ''+'' then (False, r) else (False, s)
                       | [] \<Rightarrow> (False, s))
      in if ds = [] then None
         else case digits_acc 0 ds of
                None \<Rightarrow> None
              | Some n \<Rightarrow> let v = (if neg then - n else n)
                          in if - (2 ^ 63) \<le> v \<and> v < 2 ^ 63 then Some v else None)"

definition digit_char :: "nat \<Rightarrow> char" where
  "digit_char k = char_of (48 + k)"

fun show_nat :: "nat \<Rightarrow> string" where
  "show_nat n = (if n < 10 then [digit_char n] else show_nat (n div 10) @ [digit_char (n mod 10)])"

definition show_int :: "int \<Rightarrow> string" where
  "show_int i = (if i < 0 then CHR ''-'' # show_nat (nat (- i)) else show_nat (nat i))"

text \<open>
  A word of a command or file line: non-empty text without white space. The serializer
  writes a line as its words joined by single spaces (\<open>line += " " + item\<close>), which
  is \<open>unwords\<close>.
\<close>

definition is_word :: "string \<Rightarrow> bool" where
  "is_word w \<longleftrightarrow> w \<noteq> [] \<and> \<not> list_ex is_space w"

fun unwords :: "string list \<Rightarrow> string" where
  "unwords [] = []"
| "unwords [w] = w"
| "unwords (w # v # vs) = w @ CHR '' '' # unwords (v # vs)"

text \<open>
  \<open>bufio.Scanner\<close> with its default split function \<open>ScanLines\<close>: the text is cut at
  every newline, a carriage return ending a line is dropped, and a last line without
  newline is returned when it is not empty. (The scanner's limit of 64 KiB per line
  is not modelled.)
\<close>

definition dropCR :: "string \<Rightarrow> string" where
  "dropCR s = (if s \<noteq> [] \<and> last s = CHR 0x0D then butlast s else s)"

fun scan_acc :: "string \<Rightarrow> string \<Rightarrow> string list" where
  "scan_acc cur [] = (if cur = [] then [] else [dropCR (rev cur)])"
| "scan_acc cur (c # cs) =
     (if c = CHR 0x0A then dropCR (rev cur) # scan_acc [] cs else scan_acc (c # cur) cs)"

definition scanLines :: "string \<Rightarrow> string list" where
  "scanLines s = scan_acc [] s"

text \<open>\<open>strings.Join\<close> and \<open>strings.TrimSpace\<close> (on ASCII white space).\<close>

fun join_with :: "string \<Rightarrow> string list \<Rightarrow> string" where
  "join_with sep [] = []"
| "join_with sep [w] = w"
| "join_with sep (w # v # vs) = w @ sep @ join_with sep (v # vs)"

definition trimSpace :: "string \<Rightarrow> string" where
  "trimSpace s = rev (dropWhile is_space (rev (dropWhile is_space s)))"

declare show_nat.simps [simp del]

lemma fields_acc_word:
  "\<not> list_ex is_space x \<Longrightarrow> fields_acc w (x @ rest) = fields_acc (rev x @ w) rest"
  by (induction x arbitrary: w) auto

lemma fields_unwords: "list_all is_word ws \<Longrightarrow> fields (unwords ws) = ws"
proof (induction ws rule: unwords.induct)
  case (2 w)
  then show ?case using fields_acc_word [of w "[]" "[]"] by (simp add: fields_def is_word_def)
next
  case (3 w v vs)
  then have "fields (unwords (w # v # vs)) = w # fields (unwords (v # vs))"
    using fields_acc_word [of w "[]"] by (simp add: fields_def is_word_def is_space_def)
  with 3 show ?case by simp
qed (simp add: fields_def)

lemma digit_val_digit_char [simp]: "k < 10 \<Longrightarrow> digit_val (digit_char k) = Some k"
  by (simp add: digit_val_def digit_char_def)

lemma digits_acc_append:
  "digits_acc n (xs @ ys) = Option.bind (digits_acc n xs) (\<lambda>m. digits_acc m ys)"
  by (induction n xs rule: digits_acc.induct) (auto split: option.split)

lemma digits_acc_show_nat: "digits_acc n (show_nat k) = Some (n * 10 ^ length (show_nat k) + int k)"
proof (induction k arbitrary: n rule: show_nat.induct)
  case (1 k)
  show ?case
  proof (cases "k < 10")
    case True
    then show ?thesis by (subst (1 2) show_nat.simps) simp
  next
    case False
    then have "digits_acc n (show_nat k) =
        Option.bind (digits_acc n (show_nat (k div 10))) (\<lambda>m. digits_acc m [digit_char (k mod 10)])"
      by (subst show_nat.simps) (simp add: digits_acc_append)
    also have "\<dots> = Some ((n * 10 ^ length (show_nat (k div 10)) + int (k div 10)) * 10 + int (k mod 10))"
      using "1.IH" False by simp
    also have "\<dots> = Some (n * 10 ^ length (show_nat k) + int k)"
    proof -
      have "length (show_nat k) = Suc (length (show_nat (k div 10)))"
        using False by (subst show_nat.simps) simp
      moreover have "int k = int (k div 10) * 10 + int (k mod 10)"
        using div_mult_mod_eq [of k 10] by (metis of_nat_add of_nat_mult of_nat_numeral)
      ultimately show ?thesis by (simp add: algebra_simps)
    qed
    finally show ?thesis .
  qed
qed

lemma show_nat_ne [simp]: "show_nat k \<noteq> []"
  by (subst show_nat.simps) simp

lemma digit_char_not_sign: "k < 10 \<Longrightarrow> digit_char k \<noteq> CHR ''-'' \<and> digit_char k \<noteq> CHR ''+''"
proof -
  assume k: "k < 10"
  then have "(of_char (digit_char k) :: nat) = 48 + k" by (simp add: digit_char_def)
  moreover have "(of_char (CHR ''-'') :: nat) = 45" "(of_char (CHR ''+'') :: nat) = 43" by simp_all
  ultimately show ?thesis by auto
qed

lemma hd_show_nat: "\<exists>j < 10. hd (show_nat k) = digit_char j"
proof (induction k rule: show_nat.induct)
  case (1 k)
  then show ?case by (subst show_nat.simps) (auto simp: hd_append)
qed

lemma hd_show_nat_not_sign: "hd (show_nat k) \<noteq> CHR ''-'' \<and> hd (show_nat k) \<noteq> CHR ''+''"
proof -
  obtain j where "j < 10" "hd (show_nat k) = digit_char j" using hd_show_nat [of k] by blast
  then show ?thesis using digit_char_not_sign [of j] by simp
qed

lemma atoi_show_int:
  assumes "- (2 ^ 63) \<le> i" "i < 2 ^ 63"
  shows "atoi (show_int i) = Some i"
proof (cases "i < 0")
  case True
  have "digits_acc 0 (show_nat (nat (- i))) = Some (- i)"
    using True by (simp add: digits_acc_show_nat)
  with True assms show ?thesis by (simp add: atoi_def show_int_def)
next
  case False
  obtain c r where cr: "show_nat (nat i) = c # r" by (cases "show_nat (nat i)") simp_all
  have sign: "c \<noteq> CHR ''-''" "c \<noteq> CHR ''+''" using hd_show_nat_not_sign [of "nat i"] cr by simp_all
  have "digits_acc 0 (c # r) = Some i"
    using False cr [symmetric] by (simp add: digits_acc_show_nat)
  with False assms sign show ?thesis
    by (simp only: atoi_def show_int_def cr if_False list.case prod.case Let_def) simp
qed

text \<open>What \<open>simp\<close> needs to evaluate the functions on literal text.\<close>

lemmas go_strings_eval = fields_def is_space_def is_word_def atoi_def digit_val_def show_int_def
  show_nat.simps digit_char_def char_of_def bit_0

lemma unwords_Cons: "unwords (w # ws) = w @ concat (map (\<lambda>item. '' '' @ item) ws)"
  by (induction ws arbitrary: w) (auto elim: unwords.elims)

lemma show_nat_digits: "set (show_nat k) \<subseteq> digit_char ` {..<10}"
proof (induction k rule: show_nat.induct)
  case (1 k)
  then show ?case by (subst show_nat.simps) auto
qed

lemma digit_char_not_space: "k < 10 \<Longrightarrow> \<not> is_space (digit_char k)"
proof
  assume k: "k < 10" and sp: "is_space (digit_char k)"
  have o: "(of_char (digit_char k) :: nat) = 48 + k" using k by (simp add: digit_char_def)
  show False
  proof (cases "digit_char k = CHR '' ''")
    case True
    then have "(of_char (digit_char k) :: nat) = 32" by simp
    with o show False by simp
  next
    case False
    with sp o show False by (simp add: is_space_def)
  qed
qed

lemma is_word_show_int: "is_word (show_int i)"
proof -
  have "\<not> list_ex is_space (show_nat k)" for k
    using show_nat_digits [of k] digit_char_not_space by (fastforce simp: list_ex_iff)
  then show ?thesis by (simp add: is_word_def show_int_def is_space_def)
qed

lemma unwords_spaces: "list_all is_word ws \<Longrightarrow> c \<in> set (unwords ws) \<Longrightarrow> is_space c \<Longrightarrow> c = CHR '' ''"
  by (induction ws rule: unwords.induct) (auto simp: is_word_def list_ex_iff)

lemma unwords_nonempty: "list_all is_word ws \<Longrightarrow> ws \<noteq> [] \<Longrightarrow> unwords ws \<noteq> []"
  by (induction ws rule: unwords.induct) (auto simp: is_word_def)

lemma last_unwords: "list_all is_word ws \<Longrightarrow> ws \<noteq> [] \<Longrightarrow> \<not> is_space (last (unwords ws))"
proof (induction ws rule: unwords.induct)
  case (2 w)
  then show ?case by (simp add: is_word_def list_ex_iff)
next
  case (3 w v vs)
  have "unwords (v # vs) \<noteq> []" using 3(2) by (intro unwords_nonempty) simp_all
  with 3 show ?case by (simp add: is_word_def)
qed simp

lemma scan_acc_line:
  "CHR 0x0A \<notin> set l \<Longrightarrow> scan_acc cur (l @ CHR 0x0A # rest) = dropCR (rev cur @ l) # scan_acc [] rest"
  by (induction l arbitrary: cur) auto

lemma scanLines_lines:
  assumes "\<forall>l \<in> set ls. CHR 0x0A \<notin> set l \<and> dropCR l = l"
  shows "scanLines (concat (map (\<lambda>l. l @ [CHR 0x0A]) ls)) = ls"
  using assms by (induction ls) (auto simp: scanLines_def scan_acc_line)

lemma unwords_line:
  assumes "list_all is_word ws" "ws \<noteq> []"
  shows "CHR 0x0A \<notin> set (unwords ws) \<and> dropCR (unwords ws) = unwords ws"
proof
  show "CHR 0x0A \<notin> set (unwords ws)"
    using unwords_spaces [OF assms(1), of "CHR 0x0A"] by (auto simp: is_space_def)
  have "last (unwords ws) \<noteq> CHR 0x0D"
    using last_unwords [OF assms] by (auto simp: is_space_def)
  then show "dropCR (unwords ws) = unwords ws" by (simp add: dropCR_def)
qed

lemma atoi_range: "atoi s = Some v \<Longrightarrow> - (2 ^ 63) \<le> v \<and> v < 2 ^ 63"
  by (auto simp: atoi_def Let_def split: option.splits if_splits list.splits prod.splits)

text \<open>The rewrite rules that evaluate the library functions on literal text.\<close>

lemmas fields_eval = fields_def is_space_def
lemmas atoi_eval = atoi_def digit_val_def
lemmas show_int_eval = show_int_def show_nat.simps digit_char_def char_of_def bit_0
lemmas is_word_eval = is_word_def is_space_def

end
