(* ===== verification/Command_Parser.thy ===== *)
theory Command_Parser
  imports Database Go_Strings
begin

text \<open>
  The command dispatcher of \<^verbatim>\<open>src/command_parser.go\<close>. Each \<open>handleX\<close> takes the
  registry and the words after the command name and returns the new registry and the
  lines it prints, or \<open>None\<close> when the method it calls panics. A printed line is
  \<open>Println s\<close> with the exact text for the protocol answers (\<open>TRUE\<close>, \<open>FALSE\<close>,
  values, numbers); the fixed user messages, written in Russian in the code, are
  \<open>Message tag\<close> with an ASCII tag naming the message. A handler finds the instance by
  name (\<open>Find*\<close>, a position in the registry), calls its method and writes the updated
  instance back at that position, as the method's update through the pointer does.
\<close>

datatype out_line = Println string | Message string

type_synonym handler_result = "(database \<times> out_line list) option"

abbreviation answer :: "database \<Rightarrow> string \<Rightarrow> handler_result" where
  "answer d s \<equiv> Some (d, [Println s])"

section \<open>CREATE\<close>

definition handleCreate :: "database \<Rightarrow> string list \<Rightarrow> handler_result" where
  "handleCreate d parts =
     (if length parts < 2 then Some (d, [Message ''not enough parameters for CREATE''])
      else let typeName = parts ! 0; name = parts ! 1
           in if typeName = ''ARRAY'' then Some (AddArray d (NewArray name), [Message ''array created''])
              else if typeName = ''SLL'' then
                Some (AddSLL d (NewSinglyLinkedList name), [Message ''singly linked list created''])
              else if typeName = ''DLL'' then
                Some (AddDLL d (NewDoublyLinkedList name), [Message ''doubly linked list created''])
              else if typeName = ''STACK'' then Some (AddStack d (NewStack name), [Message ''stack created''])
              else if typeName = ''QUEUE'' then Some (AddQueue d (NewQueue name), [Message ''queue created''])
              else if typeName = ''TREE'' then Some (AddTree d (NewAVLTree name), [Message ''tree created''])
              else if typeName = ''HASH'' then
                Some (AddHashTable d (NewHashTable name), [Message ''hash table created''])
              else Some (d, [Message ''unknown structure type'']))"

section \<open>Array commands\<close>

definition handleMPush :: "database \<Rightarrow> string list \<Rightarrow> handler_result" where
  "handleMPush d parts =
     (if length parts < 2 then answer d ''FALSE''
      else case FindArray d (parts ! 0) of
        None \<Rightarrow> answer d ''FALSE''
      | Some i \<Rightarrow> answer (d\<lparr>Arrays := (Arrays d)[i := Array_PushBack (Arrays d ! i) (parts ! 1)]\<rparr>) (parts ! 1))"

definition handleMInsert :: "database \<Rightarrow> string list \<Rightarrow> handler_result" where
  "handleMInsert d parts =
     (if length parts < 3 then answer d ''FALSE''
      else case atoi (parts ! 1) of
        None \<Rightarrow> answer d ''FALSE''
      | Some index \<Rightarrow> (case FindArray d (parts ! 0) of
          None \<Rightarrow> answer d ''FALSE''
        | Some i \<Rightarrow> (case Array_Insert (Arrays d ! i) index (parts ! 2) of
            Inl _ \<Rightarrow> answer d ''FALSE''
          | Inr a' \<Rightarrow> answer (d\<lparr>Arrays := (Arrays d)[i := a']\<rparr>) (parts ! 2))))"

definition handleMGet :: "database \<Rightarrow> string list \<Rightarrow> handler_result" where
  "handleMGet d parts =
     (if length parts < 2 then answer d ''FALSE''
      else case atoi (parts ! 1) of
        None \<Rightarrow> answer d ''FALSE''
      | Some index \<Rightarrow> (case FindArray d (parts ! 0) of
          None \<Rightarrow> answer d ''FALSE''
        | Some i \<Rightarrow> (case Get (Arrays d ! i) index of
            Inl _ \<Rightarrow> answer d ''FALSE''
          | Inr v \<Rightarrow> answer d v)))"

definition handleMDel :: "database \<Rightarrow> string list \<Rightarrow> handler_result" where
  "handleMDel d parts =
     (if length parts < 2 then answer d ''FALSE''
      else case atoi (parts ! 1) of
        None \<Rightarrow> answer d ''FALSE''
      | Some index \<Rightarrow> (case FindArray d (parts ! 0) of
          None \<Rightarrow> answer d ''FALSE''
        | Some i \<Rightarrow> (case Array_Remove (Arrays d ! i) index of
            Inl _ \<Rightarrow> answer d ''FALSE''
          | Inr a' \<Rightarrow> answer (d\<lparr>Arrays := (Arrays d)[i := a']\<rparr>) ''TRUE'')))"

definition handleMReplace :: "database \<Rightarrow> string list \<Rightarrow> handler_result" where
  "handleMReplace d parts =
     (if length parts < 3 then answer d ''FALSE''
      else case atoi (parts ! 1) of
        None \<Rightarrow> answer d ''FALSE''
      | Some index \<Rightarrow> (case FindArray d (parts ! 0) of
          None \<Rightarrow> answer d ''FALSE''
        | Some i \<Rightarrow> (case Replace (Arrays d ! i) index (parts ! 2) of
            Inl _ \<Rightarrow> answer d ''FALSE''
          | Inr a' \<Rightarrow> answer (d\<lparr>Arrays := (Arrays d)[i := a']\<rparr>) (parts ! 2))))"

definition handleMLength :: "database \<Rightarrow> string list \<Rightarrow> handler_result" where
  "handleMLength d parts =
     (if length parts < 1 then answer d ''FALSE''
      else case FindArray d (parts ! 0) of
        None \<Rightarrow> answer d ''FALSE''
      | Some i \<Rightarrow> answer d (show_int (int (Length (Arrays d ! i)))))"

section \<open>Singly linked list commands\<close>

definition updSLL :: "database \<Rightarrow> nat \<Rightarrow> sll \<Rightarrow> database" where
  "updSLL d i s = d\<lparr>SinglyLinkedLists := (SinglyLinkedLists d)[i := s]\<rparr>"

definition handleFPushFront :: "database \<Rightarrow> string list \<Rightarrow> handler_result" where
  "handleFPushFront d parts =
     (if length parts < 2 then answer d ''FALSE''
      else case FindSLL d (parts ! 0) of
        None \<Rightarrow> answer d ''FALSE''
      | Some i \<Rightarrow> answer (updSLL d i (SLL_PushFront (SinglyLinkedLists d ! i) (parts ! 1))) (parts ! 1))"

definition handleFPushBack :: "database \<Rightarrow> string list \<Rightarrow> handler_result" where
  "handleFPushBack d parts =
     (if length parts < 2 then answer d ''FALSE''
      else case FindSLL d (parts ! 0) of
        None \<Rightarrow> answer d ''FALSE''
      | Some i \<Rightarrow> answer (updSLL d i (SLL_PushBack (SinglyLinkedLists d ! i) (parts ! 1))) (parts ! 1))"

definition handleFInsertBefore :: "database \<Rightarrow> string list \<Rightarrow> handler_result" where
  "handleFInsertBefore d parts =
     (if length parts < 3 then answer d ''FALSE''
      else case FindSLL d (parts ! 0) of
        None \<Rightarrow> answer d ''FALSE''
      | Some i \<Rightarrow> answer (updSLL d i (SLL_InsertBefore (SinglyLinkedLists d ! i) (parts ! 1) (parts ! 2)))
                         (parts ! 2))"

definition handleFInsertAfter :: "database \<Rightarrow> string list \<Rightarrow> handler_result" where
  "handleFInsertAfter d parts =
     (if length parts < 3 then answer d ''FALSE''
      else case FindSLL d (parts ! 0) of
        None \<Rightarrow> answer d ''FALSE''
      | Some i \<Rightarrow> answer (updSLL d i (SLL_InsertAfter (SinglyLinkedLists d ! i) (parts ! 1) (parts ! 2)))
                         (parts ! 2))"

definition handleFDelFront :: "database \<Rightarrow> string list \<Rightarrow> handler_result" where
  "handleFDelFront d parts =
     (if length parts < 1 then answer d ''FALSE''
      else case FindSLL d (parts ! 0) of
        None \<Rightarrow> answer d ''FALSE''
      | Some i \<Rightarrow> answer (updSLL d i (SLL_DeleteFront (SinglyLinkedLists d ! i))) ''TRUE'')"

definition handleFDelBack :: "database \<Rightarrow> string list \<Rightarrow> handler_result" where
  "handleFDelBack d parts =
     (if length parts < 1 then answer d ''FALSE''
      else case FindSLL d (parts ! 0) of
        None \<Rightarrow> answer d ''FALSE''
      | Some i \<Rightarrow> do {
          s' \<leftarrow> SLL_DeleteBack (SinglyLinkedLists d ! i);
          answer (updSLL d i s') ''TRUE''
        })"

definition handleFDelValue :: "database \<Rightarrow> string list \<Rightarrow> handler_result" where
  "handleFDelValue d parts =
     (if length parts < 2 then answer d ''FALSE''
      else case FindSLL d (parts ! 0) of
        None \<Rightarrow> answer d ''FALSE''
      | Some i \<Rightarrow> answer (updSLL d i (SLL_DeleteByValue (SinglyLinkedLists d ! i) (parts ! 1))) ''TRUE'')"

definition handleFGet :: "database \<Rightarrow> string list \<Rightarrow> handler_result" where
  "handleFGet d parts =
     (if length parts < 2 then answer d ''FALSE''
      else case FindSLL d (parts ! 0) of
        None \<Rightarrow> answer d ''FALSE''
      | Some i \<Rightarrow> answer d (if SLL_FindByValue (SinglyLinkedLists d ! i) (parts ! 1) \<noteq> None
                           then ''TRUE'' else ''FALSE''))"

section \<open>Doubly linked list commands\<close>

definition updDLL :: "database \<Rightarrow> nat \<Rightarrow> dll \<Rightarrow> database" where
  "updDLL d i l = d\<lparr>DoublyLinkedLists := (DoublyLinkedLists d)[i := l]\<rparr>"

definition handleLPushFront :: "database \<Rightarrow> string list \<Rightarrow> handler_result" where
  "handleLPushFront d parts =
     (if length parts < 2 then answer d ''FALSE''
      else case FindDLL d (parts ! 0) of
        None \<Rightarrow> answer d ''FALSE''
      | Some i \<Rightarrow> do {
          l' \<leftarrow> DLL_PushFront (DoublyLinkedLists d ! i) (parts ! 1);
          answer (updDLL d i l') (parts ! 1)
        })"

definition handleLPushBack :: "database \<Rightarrow> string list \<Rightarrow> handler_result" where
  "handleLPushBack d parts =
     (if length parts < 2 then answer d ''FALSE''
      else case FindDLL d (parts ! 0) of
        None \<Rightarrow> answer d ''FALSE''
      | Some i \<Rightarrow> do {
          l' \<leftarrow> DLL_PushBack (DoublyLinkedLists d ! i) (parts ! 1);
          answer (updDLL d i l') (parts ! 1)
        })"

definition handleLInsertBefore :: "database \<Rightarrow> string list \<Rightarrow> handler_result" where
  "handleLInsertBefore d parts =
     (if length parts < 3 then answer d ''FALSE''
      else case FindDLL d (parts ! 0) of
        None \<Rightarrow> answer d ''FALSE''
      | Some i \<Rightarrow> do {
          l' \<leftarrow> DLL_InsertBefore (DoublyLinkedLists d ! i) (parts ! 1) (parts ! 2);
          answer (updDLL d i l') (parts ! 2)
        })"

definition handleLInsertAfter :: "database \<Rightarrow> string list \<Rightarrow> handler_result" where
  "handleLInsertAfter d parts =
     (if length parts < 3 then answer d ''FALSE''
      else case FindDLL d (parts ! 0) of
        None \<Rightarrow> answer d ''FALSE''
      | Some i \<Rightarrow> do {
          l' \<leftarrow> DLL_InsertAfter (DoublyLinkedLists d ! i) (parts ! 1) (parts ! 2);
          answer (updDLL d i l') (parts ! 2)
        })"

definition handleLDelFront :: "database \<Rightarrow> string list \<Rightarrow> handler_result" where
  "handleLDelFront d parts =
     (if length parts < 1 then answer d ''FALSE''
      else case FindDLL d (parts ! 0) of
        None \<Rightarrow> answer d ''FALSE''
      | Some i \<Rightarrow> do {
          l' \<leftarrow> DLL_DeleteFront (DoublyLinkedLists d ! i);
          answer (updDLL d i l') ''TRUE''
        })"

definition handleLDelBack :: "database \<Rightarrow> string list \<Rightarrow> handler_result" where
  "handleLDelBack d parts =
     (if length parts < 1 then answer d ''FALSE''
      else case FindDLL d (parts ! 0) of
        None \<Rightarrow> answer d ''FALSE''
      | Some i \<Rightarrow> do {
          l' \<leftarrow> DLL_DeleteBack (DoublyLinkedLists d ! i);
          answer (updDLL d i l') ''TRUE''
        })"

definition handleLDelValue :: "database \<Rightarrow> string list \<Rightarrow> handler_result" where
  "handleLDelValue d parts =
     (if length parts < 2 then answer d ''FALSE''
      else case FindDLL d (parts ! 0) of
        None \<Rightarrow> answer d ''FALSE''
      | Some i \<Rightarrow> do {
          l' \<leftarrow> DLL_DeleteByValue (DoublyLinkedLists d ! i) (parts ! 1);
          answer (updDLL d i l') ''TRUE''
        })"

definition handleLGet :: "database \<Rightarrow> string list \<Rightarrow> handler_result" where
  "handleLGet d parts =
     (if length parts < 2 then answer d ''FALSE''
      else case FindDLL d (parts ! 0) of
        None \<Rightarrow> answer d ''FALSE''
      | Some i \<Rightarrow> do {
          node \<leftarrow> DLL_FindByValue (DoublyLinkedLists d ! i) (parts ! 1);
          answer d (if node \<noteq> None then ''TRUE'' else ''FALSE'')
        })"

section \<open>Stack and queue commands\<close>

definition handleSPush :: "database \<Rightarrow> string list \<Rightarrow> handler_result" where
  "handleSPush d parts =
     (if length parts < 2 then answer d ''FALSE''
      else case FindStack d (parts ! 0) of
        None \<Rightarrow> answer d ''FALSE''
      | Some i \<Rightarrow> answer (d\<lparr>Stacks := (Stacks d)[i := Stack_Push (Stacks d ! i) (parts ! 1)]\<rparr>) (parts ! 1))"

definition handleSPop :: "database \<Rightarrow> string list \<Rightarrow> handler_result" where
  "handleSPop d parts =
     (if length parts < 1 then answer d ''FALSE''
      else case FindStack d (parts ! 0) of
        None \<Rightarrow> answer d ''FALSE''
      | Some i \<Rightarrow> (let (r, s') = Stack_Pop (Stacks d ! i); d' = d\<lparr>Stacks := (Stacks d)[i := s']\<rparr>
                   in case r of Inl _ \<Rightarrow> answer d' ''FALSE'' | Inr v \<Rightarrow> answer d' v))"

definition handleSPeek :: "database \<Rightarrow> string list \<Rightarrow> handler_result" where
  "handleSPeek d parts =
     (if length parts < 1 then answer d ''FALSE''
      else case FindStack d (parts ! 0) of
        None \<Rightarrow> answer d ''FALSE''
      | Some i \<Rightarrow> (case Stack_Peek (Stacks d ! i) of Inl _ \<Rightarrow> answer d ''FALSE'' | Inr v \<Rightarrow> answer d v))"

definition handleQPush :: "database \<Rightarrow> string list \<Rightarrow> handler_result" where
  "handleQPush d parts =
     (if length parts < 2 then answer d ''FALSE''
      else case FindQueue d (parts ! 0) of
        None \<Rightarrow> answer d ''FALSE''
      | Some i \<Rightarrow> do {
          q' \<leftarrow> Queue_Push (Queues d ! i) (parts ! 1);
          answer (d\<lparr>Queues := (Queues d)[i := q']\<rparr>) (parts ! 1)
        })"

definition handleQPop :: "database \<Rightarrow> string list \<Rightarrow> handler_result" where
  "handleQPop d parts =
     (if length parts < 1 then answer d ''FALSE''
      else case FindQueue d (parts ! 0) of
        None \<Rightarrow> answer d ''FALSE''
      | Some i \<Rightarrow> (let (r, q') = Queue_Pop (Queues d ! i); d' = d\<lparr>Queues := (Queues d)[i := q']\<rparr>
                   in case r of Inl _ \<Rightarrow> answer d' ''FALSE'' | Inr v \<Rightarrow> answer d' v))"

definition handleQPeek :: "database \<Rightarrow> string list \<Rightarrow> handler_result" where
  "handleQPeek d parts =
     (if length parts < 1 then answer d ''FALSE''
      else case FindQueue d (parts ! 0) of
        None \<Rightarrow> answer d ''FALSE''
      | Some i \<Rightarrow> (case Queue_Peek (Queues d ! i) of Inl _ \<Rightarrow> answer d ''FALSE'' | Inr v \<Rightarrow> answer d v))"

section \<open>Tree and hash table commands\<close>

definition handleTInsert :: "database \<Rightarrow> string list \<Rightarrow> handler_result" where
  "handleTInsert d parts =
     (if length parts < 2 then answer d ''FALSE''
      else case atoi (parts ! 1) of
        None \<Rightarrow> answer d ''FALSE''
      | Some v \<Rightarrow> (case FindTree d (parts ! 0) of
          None \<Rightarrow> answer d ''FALSE''
        | Some i \<Rightarrow> do {
            t' \<leftarrow> AVLTree_Insert (Trees d ! i) v;
            answer (d\<lparr>Trees := (Trees d)[i := t']\<rparr>) (show_int v)
          }))"

definition handleTDel :: "database \<Rightarrow> string list \<Rightarrow> handler_result" where
  "handleTDel d parts =
     (if length parts < 2 then answer d ''FALSE''
      else case atoi (parts ! 1) of
        None \<Rightarrow> answer d ''FALSE''
      | Some v \<Rightarrow> (case FindTree d (parts ! 0) of
          None \<Rightarrow> answer d ''FALSE''
        | Some i \<Rightarrow> do {
            t' \<leftarrow> AVLTree_Remove (Trees d ! i) v;
            answer (d\<lparr>Trees := (Trees d)[i := t']\<rparr>) ''TRUE''
          }))"

definition handleTGet :: "database \<Rightarrow> string list \<Rightarrow> handler_result" where
  "handleTGet d parts =
     (if length parts < 2 then answer d ''FALSE''
      else case atoi (parts ! 1) of
        None \<Rightarrow> answer d ''FALSE''
      | Some v \<Rightarrow> (case FindTree d (parts ! 0) of
          None \<Rightarrow> answer d ''FALSE''
        | Some i \<Rightarrow> answer d (if AVLTree_Search (Trees d ! i) v \<noteq> NilNode then ''TRUE'' else ''FALSE'')))"

definition handleHInsert :: "database \<Rightarrow> string list \<Rightarrow> handler_result" where
  "handleHInsert d parts =
     (if length parts < 3 then answer d ''FALSE''
      else case FindHashTable d (parts ! 0) of
        None \<Rightarrow> answer d ''FALSE''
      | Some i \<Rightarrow> answer (d\<lparr>HashTables := (HashTables d)[i := HashTable_Insert (HashTables d ! i) (parts ! 1) (parts ! 2)]\<rparr>)
                         (parts ! 2))"

definition handleHGet :: "database \<Rightarrow> string list \<Rightarrow> handler_result" where
  "handleHGet d parts =
     (if length parts < 2 then answer d ''FALSE''
      else case FindHashTable d (parts ! 0) of
        None \<Rightarrow> answer d ''FALSE''
      | Some i \<Rightarrow> (let (v, found) = HashTable_Search (HashTables d ! i) (parts ! 1)
                   in answer d (if found then v else ''FALSE'')))"

definition handleHDel :: "database \<Rightarrow> string list \<Rightarrow> handler_result" where
  "handleHDel d parts =
     (if length parts < 2 then answer d ''FALSE''
      else case FindHashTable d (parts ! 0) of
        None \<Rightarrow> answer d ''FALSE''
      | Some i \<Rightarrow> (let (t', removed) = HashTable_Remove (HashTables d ! i) (parts ! 1)
                   in answer (d\<lparr>HashTables := (HashTables d)[i := t']\<rparr>) (if removed then ''TRUE'' else ''FALSE'')))"

definition handleHSize :: "database \<Rightarrow> string list \<Rightarrow> handler_result" where
  "handleHSize d parts =
     (if length parts < 1 then answer d ''FALSE''
      else case FindHashTable d (parts ! 0) of
        None \<Rightarrow> answer d ''FALSE''
      | Some i \<Rightarrow> answer d (show_int (int (HashTable_GetSize (HashTables d ! i)))))"

section \<open>Dispatch\<close>

text \<open>
  \<open>ProcessCommand\<close> splits the line with \<open>strings.Fields\<close> and dispatches on the first
  word. The commands that print a whole structure, read or write files or print the help
  text (\<open>PRINT\<close>, \<open>SAVE\<close>, \<open>LOAD\<close>, \<open>SAVE_TEXT\<close>, \<open>SAVE_BINARY\<close>, \<open>LOAD_TEXT\<close>,
  \<open>LOAD_BINARY\<close>, \<open>HELP\<close>) act on the terminal and the file system; the dispatcher
  hands them on as \<open>External\<close>, and their effect is not part of this theory.
\<close>

datatype command_result = Handled handler_result | External string "string list"

definition ProcessCommand :: "database \<Rightarrow> string \<Rightarrow> command_result" where
  "ProcessCommand d command =
     (case fields command of
        [] \<Rightarrow> Handled (Some (d, []))
      | action # args \<Rightarrow>
          if action = ''CREATE'' then Handled (handleCreate d args)
          else if action = ''MPUSH'' then Handled (handleMPush d args)
          else if action = ''MINSERT'' then Handled (handleMInsert d args)
          else if action = ''MGET'' then Handled (handleMGet d args)
          else if action = ''MDEL'' then Handled (handleMDel d args)
          else if action = ''MREPLACE'' then Handled (handleMReplace d args)
          else if action = ''MLENGTH'' then Handled (handleMLength d args)
          else if action = ''FPUSH_FRONT'' then Handled (handleFPushFront d args)
          else if action = ''FPUSH_BACK'' then Handled (handleFPushBack d args)
          else if action = ''FINSERT_BEFORE'' then Handled (handleFInsertBefore d args)
          else if action = ''FINSERT_AFTER'' then Handled (handleFInsertAfter d args)
          else if action = ''FDEL_FRONT'' then Handled (handleFDelFront d args)
          else if action = ''FDEL_BACK'' then Handled (handleFDelBack d args)
          else if action = ''FDEL_VALUE'' then Handled (handleFDelValue d args)
          else if action = ''FGET'' then Handled (handleFGet d args)
          else if action = ''LPUSH_FRONT'' then Handled (handleLPushFront d args)
          else if action = ''LPUSH_BACK'' then Handled (handleLPushBack d args)
          else if action = ''LINSERT_BEFORE'' then Handled (handleLInsertBefore d args)
          else if action = ''LINSERT_AFTER'' then Handled (handleLInsertAfter d args)
          else if action = ''LDEL_FRONT'' then Handled (handleLDelFront d args)
          else if action = ''LDEL_BACK'' then Handled (handleLDelBack d args)
          else if action = ''LDEL_VALUE'' then Handled (handleLDelValue d args)
          else if action = ''LGET'' then Handled (handleLGet d args)
          else if action = ''SPUSH'' then Handled (handleSPush d args)
          else if action = ''SPOP'' then Handled (handleSPop d args)
          else if action = ''SPEEK'' then Handled (handleSPeek d args)
          else if action = ''QPUSH'' then Handled (handleQPush d args)
          else if action = ''QPOP'' then Handled (handleQPop d args)
          else if action = ''QPEEK'' then Handled (handleQPeek d args)
          else if action = ''TINSERT'' then Handled (handleTInsert d args)
          else if action = ''TDEL'' then Handled (handleTDel d args)
          else if action = ''TGET'' then Handled (handleTGet d args)
          else if action = ''HINSERT'' then Handled (handleHInsert d args)
          else if action = ''HGET'' then Handled (handleHGet d args)
          else if action = ''HDEL'' then Handled (handleHDel d args)
          else if action = ''HSIZE'' then Handled (handleHSize d args)
          else if action \<in> set [''PRINT'', ''SAVE'', ''LOAD'', ''SAVE_TEXT'', ''SAVE_BINARY'',
                                 ''LOAD_TEXT'', ''LOAD_BINARY'', ''HELP''] then External action args
          else if action = ''EXIT'' then Handled (Some (d, [Message ''exiting the program'']))
          else Handled (Some (d, [Message ''unknown command, type HELP for the list of commands''])))"

section \<open>Safety of the dispatcher\<close>

definition ok_result :: "handler_result \<Rightarrow> bool" where
  "ok_result r \<longleftrightarrow> (\<exists>d' out. r = Some (d', out) \<and> db_ok d')"

text \<open>
  The registries the command loop reaches from \<open>NewDatabase\<close> through the commands the
  dispatcher handles itself.
\<close>

inductive db_reachable :: "database \<Rightarrow> bool" where
  new: "db_reachable NewDatabase"
| step: "db_reachable d \<Longrightarrow> ProcessCommand d cmd = Handled (Some (d', out)) \<Longrightarrow> db_reachable d'"

text \<open>The registry of the examples: \<open>CREATE TREE t\<close> then \<open>CREATE HASH h\<close>.\<close>

abbreviation example_db :: database where
  "example_db \<equiv> AddHashTable (AddTree NewDatabase (NewAVLTree ''t'')) (NewHashTable ''h'')"

text \<open>
  The commands that act on one named container instance (every command but \<open>CREATE\<close>
  and those handed on), and the names the instances of a registry carry.
\<close>

definition container_queries :: "string list" where
  "container_queries =
     [''MPUSH'', ''MINSERT'', ''MGET'', ''MDEL'', ''MREPLACE'', ''MLENGTH'', 
      ''FPUSH_FRONT'', ''FPUSH_BACK'', ''FINSERT_BEFORE'', ''FINSERT_AFTER'', 
      ''FDEL_FRONT'', ''FDEL_BACK'', ''FDEL_VALUE'', ''FGET'', ''LPUSH_FRONT'', 
      ''LPUSH_BACK'', ''LINSERT_BEFORE'', ''LINSERT_AFTER'', ''LDEL_FRONT'', 
      ''LDEL_BACK'', ''LDEL_VALUE'', ''LGET'', ''SPUSH'', ''SPOP'', ''SPEEK'', ''QPUSH'', 
      ''QPOP'', ''QPEEK'', ''TINSERT'', ''TDEL'', ''TGET'', ''HINSERT'', ''HGET'', 
      ''HDEL'', ''HSIZE'']"

definition instance_names :: "database \<Rightarrow> string list" where
  "instance_names d =
     map array_name (Arrays d) @ map sll_name (SinglyLinkedLists d) @ map dll_name (DoublyLinkedLists d) @
     map stack_name (Stacks d) @ map queue_name (Queues d) @ map tree_name (Trees d) @ map ht_name (HashTables d)"

named_theorems handler_ok "handlers keep the registry well formed"

lemma ok_answer [simp]: "ok_result (Some (d, out)) \<longleftrightarrow> db_ok d"
  by (simp add: ok_result_def)

lemma ok_bind:
  "(\<exists>x. m = Some x \<and> P x) \<Longrightarrow> (\<And>x. P x \<Longrightarrow> ok_result (f x)) \<Longrightarrow> ok_result (m \<bind> f)"
  by auto

lemma db_ok_Arrays [simp]: "db_ok (d\<lparr>Arrays := a\<rparr>) \<longleftrightarrow> db_ok d"
  by (simp add: db_ok_def)

lemma db_ok_add [simp]:
  "db_ok (AddArray d a) \<longleftrightarrow> db_ok d"
  "db_ok (AddSLL d s) \<longleftrightarrow> db_ok d \<and> sll_reachable s"
  "db_ok (AddDLL d l) \<longleftrightarrow> db_ok d \<and> dll_reachable l"
  "db_ok (AddStack d st) \<longleftrightarrow> db_ok d \<and> stack_reachable st"
  "db_ok (AddQueue d q) \<longleftrightarrow> db_ok d \<and> queue_reachable q"
  "db_ok (AddTree d t) \<longleftrightarrow> db_ok d \<and> tree_reachable t"
  "db_ok (AddHashTable d h) \<longleftrightarrow> db_ok d \<and> ht_reachable h"
  by (auto simp: db_ok_def AddArray_def AddSLL_def AddDLL_def AddStack_def AddQueue_def
      AddTree_def AddHashTable_def)

lemma db_ok_upd:
  "db_ok d \<Longrightarrow> sll_reachable s \<Longrightarrow> db_ok (updSLL d i s)"
  "db_ok d \<Longrightarrow> dll_reachable l \<Longrightarrow> db_ok (updDLL d i l)"
  "db_ok d \<Longrightarrow> stack_reachable st \<Longrightarrow> db_ok (d\<lparr>Stacks := (Stacks d)[i := st]\<rparr>)"
  "db_ok d \<Longrightarrow> queue_reachable q \<Longrightarrow> db_ok (d\<lparr>Queues := (Queues d)[i := q]\<rparr>)"
  "db_ok d \<Longrightarrow> tree_reachable t \<Longrightarrow> db_ok (d\<lparr>Trees := (Trees d)[i := t]\<rparr>)"
  "db_ok d \<Longrightarrow> ht_reachable h \<Longrightarrow> db_ok (d\<lparr>HashTables := (HashTables d)[i := h]\<rparr>)"
  by (simp_all add: db_ok_def updSLL_def updDLL_def list_all_update)

lemma db_ok_find:
  "db_ok d \<Longrightarrow> FindSLL d n = Some i \<Longrightarrow> sll_reachable (SinglyLinkedLists d ! i)"
  "db_ok d \<Longrightarrow> FindDLL d n = Some i \<Longrightarrow> dll_reachable (DoublyLinkedLists d ! i)"
  "db_ok d \<Longrightarrow> FindStack d n = Some i \<Longrightarrow> stack_reachable (Stacks d ! i)"
  "db_ok d \<Longrightarrow> FindQueue d n = Some i \<Longrightarrow> queue_reachable (Queues d ! i)"
  "db_ok d \<Longrightarrow> FindTree d n = Some i \<Longrightarrow> tree_reachable (Trees d ! i)"
  "db_ok d \<Longrightarrow> FindHashTable d n = Some i \<Longrightarrow> ht_reachable (HashTables d ! i)"
  by (auto simp: db_ok_def FindSLL_def FindDLL_def FindStack_def FindQueue_def FindTree_def
      FindHashTable_def intro: list_all_nth_find)

lemma handleCreate_ok [handler_ok]: "db_ok d \<Longrightarrow> ok_result (handleCreate d parts)"
  by (simp add: handleCreate_def Let_def sll_reachable.new dll_reachable.new stack_reachable.new
      queue_reachable.new tree_reachable.new ht_reachable.new)

lemma handleM_ok [handler_ok]:
  "db_ok d \<Longrightarrow> ok_result (handleMPush d parts)"
  "db_ok d \<Longrightarrow> ok_result (handleMInsert d parts)"
  "db_ok d \<Longrightarrow> ok_result (handleMGet d parts)"
  "db_ok d \<Longrightarrow> ok_result (handleMDel d parts)"
  "db_ok d \<Longrightarrow> ok_result (handleMReplace d parts)"
  "db_ok d \<Longrightarrow> ok_result (handleMLength d parts)"
  by (simp_all add: handleMPush_def handleMInsert_def handleMGet_def handleMDel_def handleMReplace_def
      handleMLength_def split: option.split sum.split)

lemmas sll_step_intros = sll_reachable.push_front sll_reachable.push_back sll_reachable.insert_before
  sll_reachable.insert_after sll_reachable.delete_front sll_reachable.delete_by_value

lemma handleF_ok [handler_ok]:
  "db_ok d \<Longrightarrow> ok_result (handleFPushFront d parts)"
  "db_ok d \<Longrightarrow> ok_result (handleFPushBack d parts)"
  "db_ok d \<Longrightarrow> ok_result (handleFInsertBefore d parts)"
  "db_ok d \<Longrightarrow> ok_result (handleFInsertAfter d parts)"
  "db_ok d \<Longrightarrow> ok_result (handleFDelFront d parts)"
  "db_ok d \<Longrightarrow> ok_result (handleFDelValue d parts)"
  "db_ok d \<Longrightarrow> ok_result (handleFGet d parts)"
  by (auto simp: handleFPushFront_def handleFPushBack_def handleFInsertBefore_def handleFInsertAfter_def
      handleFDelFront_def handleFDelValue_def handleFGet_def split: option.split
      intro!: db_ok_upd sll_step_intros dest: db_ok_find)

lemma handleFDelBack_ok [handler_ok]: "db_ok d \<Longrightarrow> ok_result (handleFDelBack d parts)"
  unfolding handleFDelBack_def
  by (auto split: option.split intro!: ok_bind db_ok_upd sll_DeleteBack_ok dest: db_ok_find)

lemma pop_reachable:
  "stack_reachable s \<Longrightarrow> Stack_Pop s = (r, s') \<Longrightarrow> stack_reachable s'"
  "queue_reachable q \<Longrightarrow> Queue_Pop q = (r, q') \<Longrightarrow> queue_reachable q'"
  "ht_reachable h \<Longrightarrow> HashTable_Remove h k = (h', b) \<Longrightarrow> ht_reachable h'"
  using stack_reachable.pop [of s] queue_reachable.pop [of q] ht_reachable.remove [of h k] by simp_all

lemma handleL_ok [handler_ok]:
  "db_ok d \<Longrightarrow> ok_result (handleLPushFront d parts)"
  "db_ok d \<Longrightarrow> ok_result (handleLPushBack d parts)"
  "db_ok d \<Longrightarrow> ok_result (handleLInsertBefore d parts)"
  "db_ok d \<Longrightarrow> ok_result (handleLInsertAfter d parts)"
  "db_ok d \<Longrightarrow> ok_result (handleLDelFront d parts)"
  "db_ok d \<Longrightarrow> ok_result (handleLDelBack d parts)"
  "db_ok d \<Longrightarrow> ok_result (handleLDelValue d parts)"
  by (auto simp: handleLPushFront_def handleLPushBack_def handleLInsertBefore_def handleLInsertAfter_def
      handleLDelFront_def handleLDelBack_def handleLDelValue_def split: option.split
      intro!: ok_bind db_ok_upd reach_ok dest: db_ok_find)

lemma handleLGet_ok [handler_ok]: "db_ok d \<Longrightarrow> ok_result (handleLGet d parts)"
proof (cases "length parts < 2")
  case False
  assume ok: "db_ok d"
  show ?thesis
  proof (cases "FindDLL d (parts ! 0)")
    case (Some i)
    obtain r where "DLL_FindByValue (DoublyLinkedLists d ! i) (parts ! 1) = Some r"
      using dll_FindByValue_ok [OF db_ok_find(2) [OF ok Some]] by blast
    with ok False Some show ?thesis by (simp add: handleLGet_def)
  qed (use ok False in \<open>simp add: handleLGet_def\<close>)
qed (simp add: handleLGet_def)

lemma handleSQ_ok [handler_ok]:
  "db_ok d \<Longrightarrow> ok_result (handleSPush d parts)"
  "db_ok d \<Longrightarrow> ok_result (handleSPop d parts)"
  "db_ok d \<Longrightarrow> ok_result (handleSPeek d parts)"
  "db_ok d \<Longrightarrow> ok_result (handleQPush d parts)"
  "db_ok d \<Longrightarrow> ok_result (handleQPop d parts)"
  "db_ok d \<Longrightarrow> ok_result (handleQPeek d parts)"
  by (auto simp: handleSPush_def handleSPop_def handleSPeek_def handleQPush_def handleQPop_def
      handleQPeek_def Let_def split: option.split prod.split sum.split
      intro!: ok_bind db_ok_upd stack_reachable.push queue_Push_ok dest: db_ok_find pop_reachable)

lemma handleTH_ok [handler_ok]:
  "db_ok d \<Longrightarrow> ok_result (handleTInsert d parts)"
  "db_ok d \<Longrightarrow> ok_result (handleTDel d parts)"
  "db_ok d \<Longrightarrow> ok_result (handleTGet d parts)"
  "db_ok d \<Longrightarrow> ok_result (handleHInsert d parts)"
  "db_ok d \<Longrightarrow> ok_result (handleHGet d parts)"
  "db_ok d \<Longrightarrow> ok_result (handleHDel d parts)"
  "db_ok d \<Longrightarrow> ok_result (handleHSize d parts)"
  by (auto simp: handleTInsert_def handleTDel_def handleTGet_def handleHInsert_def handleHGet_def
      handleHDel_def handleHSize_def Let_def split: option.split prod.split
      intro!: ok_bind db_ok_upd tree_Insert_ok tree_Remove_ok ht_reachable.insert
      dest: db_ok_find pop_reachable)

lemma process_ok: "db_ok d \<Longrightarrow> ProcessCommand d cmd = Handled r \<Longrightarrow> ok_result r"
  by (auto simp: ProcessCommand_def handler_ok split: list.split_asm if_split_asm)

lemma db_reachable_ok: "db_reachable d \<Longrightarrow> db_ok d"
proof (induction rule: db_reachable.induct)
  case new
  show ?case by (simp add: db_ok_def NewDatabase_def)
next
  case (step d cmd d' out)
  then show ?case using process_ok [of d cmd] by simp
qed

lemma findName_update_same:
  "f x = f (xs ! i) \<Longrightarrow> findName f n (xs[i := x]) j = findName f n xs j"
  by (induction xs arbitrary: i j) (auto split: nat.split)

lemma tree_Insert_found:
  assumes "tree_reachable t" "AVLTree_Insert t v = Some t'"
  shows "tree_name t' = tree_name t \<and> AVLTree_Search t' v \<noteq> NilNode"
proof -
  have inv: "avl (root t)" "strictly_sorted (inorder (root t))" using tree_reachable_avl [OF assms(1)] by simp_all
  then have "tree_name t' = tree_name t" "inorder (root t') = ins_list v (inorder (root t))"
    using Insert_correct [OF inv, of v] assms(2) by auto
  then show ?thesis
    using inv(2) by (simp add: AVLTree_Search_def searchHelper_member strictly_sorted_ins_list)
qed

lemma tree_Remove_del:
  assumes "tree_reachable t" "AVLTree_Remove t v = Some t'"
  shows "tree_name t' = tree_name t \<and> SaveTree t' = del_list v (SaveTree t)"
  using tree_reachable_avl [OF assms(1)] Remove_correct [of t v] assms(2) by (auto simp: SaveTree_inorder)

lemma hash_lookup_after_insert:
  assumes "ht_reachable h"
  shows "HashTable_Search (HashTable_Insert h k v) k = (v, True)"
proof -
  have "ht_inv h" using ht_reachable_inv [OF assms] by blast
  then show ?thesis using Insert_inv_abs [of h k v] Search_abs [of "HashTable_Insert h k v" k] by simp
qed

lemma example_db_reachable:
  "db_reachable example_db"
proof -
  have "ProcessCommand NewDatabase ''CREATE TREE t'' =
        Handled (Some (AddTree NewDatabase (NewAVLTree ''t''), [Message ''tree created'']))"
    by (simp add: ProcessCommand_def fields_eval handleCreate_def)
  moreover have "ProcessCommand (AddTree NewDatabase (NewAVLTree ''t'')) ''CREATE HASH h'' =
        Handled (Some (AddHashTable (AddTree NewDatabase (NewAVLTree ''t'')) (NewHashTable ''h''),
                       [Message ''hash table created'']))"
    by (simp add: ProcessCommand_def fields_eval handleCreate_def)
  ultimately show ?thesis by (meson db_reachable.new db_reachable.step)
qed

lemma example_handled: "ProcessCommand example_db cmd = Handled r \<Longrightarrow> \<exists>d' out. r = Some (d', out)"
  using process_ok [OF db_reachable_ok [OF example_db_reachable], of cmd r] by (auto simp: ok_result_def)

text \<open>
  C31. No command the dispatcher handles panics on a registry the command loop reaches:
  every nil dereference the handlers could meet is excluded by the invariants of the
  instances.
\<close>

theorem ProcessCommand_no_panic: "db_reachable d \<Longrightarrow> ProcessCommand d cmd \<noteq> Handled None"
proof (rule notI)
  assume "db_reachable d" "ProcessCommand d cmd = Handled None"
  then show False using process_ok [OF db_reachable_ok, of d cmd None] by (simp add: ok_result_def)
qed

theorem ProcessCommand_no_panic_witness:
  "db_reachable example_db \<and>
   ProcessCommand example_db ''TDEL t 5''
     \<noteq> Handled None"
  using ProcessCommand_no_panic [OF example_db_reachable] example_db_reachable by blast

text \<open>The handlers that look one instance up, and their answer when it is missing.\<close>

lemma find_missing:
  assumes "name \<notin> set (instance_names d)"
  shows "FindArray d name = None" "FindSLL d name = None" "FindDLL d name = None" "FindStack d name = None"
    "FindQueue d name = None" "FindTree d name = None" "FindHashTable d name = None"
  using assms by (auto simp: instance_names_def FindArray_def FindSLL_def FindDLL_def FindStack_def FindQueue_def
      FindTree_def FindHashTable_def findName_None)

lemmas query_handler_defs = handleMPush_def handleMInsert_def handleMGet_def handleMDel_def handleMReplace_def handleMLength_def handleFPushFront_def handleFPushBack_def handleFInsertBefore_def handleFInsertAfter_def handleFDelFront_def handleFDelBack_def handleFDelValue_def handleFGet_def handleLPushFront_def handleLPushBack_def handleLInsertBefore_def handleLInsertAfter_def handleLDelFront_def handleLDelBack_def handleLDelValue_def handleLGet_def handleSPush_def handleSPop_def handleSPeek_def handleQPush_def handleQPop_def handleQPeek_def handleTInsert_def handleTDel_def handleTGet_def handleHInsert_def handleHGet_def handleHDel_def handleHSize_def

text \<open>
  C32. Every command that acts on a named container instance answers \<open>FALSE\<close> and leaves
  the registry unchanged when no instance of the registry carries that name, whatever
  its other arguments: each of the 35 handlers checks the pointer its \<open>Find*\<close> returns
  (or rejects the arguments first, also with \<open>FALSE\<close>) before using it.
\<close>

theorem missing_instance_false:
  assumes "cmd \<in> set container_queries" "list_all is_word (cmd # name # args)"
    and "name \<notin> set (instance_names d)"
  shows "ProcessCommand d (unwords (cmd # name # args)) = Handled (Some (d, [Println ''FALSE'']))"
proof -
  have f: "Go_Strings.fields (unwords (cmd # name # args)) = cmd # name # args"
    using assms(2) by (rule fields_unwords)
  note none = find_missing [OF assms(3)]
  show ?thesis
    unfolding ProcessCommand_def f list.case
    using assms(1) unfolding container_queries_def set_simps
    by (elim insertE emptyE) (simp_all add: query_handler_defs none split: option.split)
qed

theorem missing_instance_false_witness:
  "ProcessCommand example_db (unwords [''HGET'', ''zz'', ''k'']) = Handled (Some (example_db, [Println ''FALSE'']))"
proof -
  have h1: "''HGET'' \<in> set container_queries" by (simp add: container_queries_def)
  have h2: "list_all is_word [''HGET'', ''zz'', ''k'']" by (simp add: is_word_eval)
  have h3: "''zz'' \<notin> set (instance_names example_db)"
    by (simp add: instance_names_def AddHashTable_def AddTree_def NewDatabase_def NewAVLTree_def NewHashTable_def)
  show ?thesis using missing_instance_false [OF h1 h2 h3] .
qed

text \<open>
  C33. Inserting a key into a hash table by command and then asking for it answers the
  value just inserted: \<open>HINSERT n k v\<close> followed by \<open>HGET n k\<close> prints \<open>v\<close>, on any
  registry the loop reaches and any table \<open>n\<close> of it.
\<close>

theorem hash_insert_then_get:
  assumes "db_reachable d" "list_all is_word [n, k, v]" "FindHashTable d n = Some i"
    and "ProcessCommand d (unwords [''HINSERT'', n, k, v]) = Handled (Some (d', out))"
  shows "out = [Println v] \<and> ProcessCommand d' (unwords [''HGET'', n, k]) = Handled (answer d' v)"
proof -
  have words: "is_word ''HINSERT''" "is_word ''HGET''" by (simp_all add: is_word_eval)
  have ok: "db_ok d" using db_reachable_ok [OF assms(1)] .
  let ?h = "HashTables d ! i"
  have d': "d' = d\<lparr>HashTables := (HashTables d)[i := HashTable_Insert ?h k v]\<rparr>" "out = [Println v]"
    using assms(2-4) words by (simp_all add: ProcessCommand_def fields_unwords handleHInsert_def del: unwords.simps)
  have i: "i < length (HashTables d)" using assms(3) findName_less by (simp add: FindHashTable_def)
  have "FindHashTable d' n = Some i"
    using assms(3) by (simp add: d'(1) FindHashTable_def findName_update_same)
  moreover have "HashTable_Search (HashTables d' ! i) k = (v, True)"
    using hash_lookup_after_insert [OF db_ok_find(6) [OF ok assms(3)]] i by (simp add: d'(1))
  ultimately show ?thesis
    using assms(2) words d'(2) by (simp add: ProcessCommand_def fields_unwords handleHGet_def del: unwords.simps)
qed

theorem hash_insert_then_get_witness:
  "\<exists>d' out. ProcessCommand example_db
               (unwords [''HINSERT'', ''h'', ''k'', ''v'']) = Handled (Some (d', out)) \<and>
     out = [Println ''v''] \<and> ProcessCommand d' (unwords [''HGET'', ''h'', ''k'']) = Handled (answer d' ''v'')"
proof -
  obtain r where r: "ProcessCommand example_db (unwords [''HINSERT'', ''h'', ''k'', ''v'']) = Handled r" 
    by (simp add: ProcessCommand_def fields_eval)
  obtain d' out where "r = Some (d', out)"
    using process_ok [OF db_reachable_ok [OF example_db_reachable] r] by (auto simp: ok_result_def)
  moreover have "FindHashTable example_db ''h'' = Some 0"
    by (simp add: FindHashTable_def AddHashTable_def AddTree_def NewDatabase_def NewHashTable_def)
  moreover have "list_all is_word [''h'', ''k'', ''v'']" by (simp add: is_word_eval)
  ultimately show ?thesis
    using hash_insert_then_get [OF example_db_reachable, of "''h''" "''k''" "''v''" 0 d' out] r by blast
qed

text \<open>
  C34. Inserting a number into a tree by command and then searching it answers
  \<open>TRUE\<close>, and \<open>TINSERT\<close> echoes the number as \<open>strconv.Atoi\<close> read it (so
  \<open>+5\<close> and \<open>05\<close> are echoed as \<open>5\<close>).
\<close>

theorem tree_insert_then_get:
  assumes "db_reachable d" "list_all is_word [n, s]" "FindTree d n = Some i" "atoi s = Some v"
    and "ProcessCommand d (unwords [''TINSERT'', n, s]) = Handled (Some (d', out))"
  shows "out = [Println (show_int v)] \<and> ProcessCommand d' (unwords [''TGET'', n, s]) = Handled (answer d' ''TRUE'')"
proof -
  have words: "is_word ''TINSERT''" "is_word ''TGET''" by (simp_all add: is_word_eval)
  have reach: "tree_reachable (Trees d ! i)" using db_ok_find(5) [OF db_reachable_ok [OF assms(1)] assms(3)] .
  have "handleTInsert d [n, s] = Some (d', out)"
    using assms(2,5) words(1) by (simp add: ProcessCommand_def fields_unwords del: unwords.simps)
  then obtain t' where t': "AVLTree_Insert (Trees d ! i) v = Some t'"
    and d': "d' = d\<lparr>Trees := (Trees d)[i := t']\<rparr>" "out = [Println (show_int v)]"
    using assms(3,4) by (auto simp: handleTInsert_def split: Option.bind_splits)
  have i: "i < length (Trees d)" using assms(3) findName_less by (simp add: FindTree_def)
  have found: "FindTree d' n = Some i"
    using assms(3) tree_Insert_found [OF reach t'] by (simp add: d'(1) FindTree_def findName_update_same)
  show ?thesis
    using assms(2,4) words(2) d'(2) found tree_Insert_found [OF reach t'] i
    by (simp add: ProcessCommand_def fields_unwords handleTGet_def d'(1) del: unwords.simps)
qed

theorem tree_insert_then_get_witness:
  "\<exists>d' out. ProcessCommand example_db (unwords [''TINSERT'', ''t'', ''+5'']) = Handled (Some (d', out)) \<and>
     out = [Println ''5''] \<and> ProcessCommand d' (unwords [''TGET'', ''t'', ''+5'']) = Handled (answer d' ''TRUE'')"
proof -
  obtain r where r: "ProcessCommand example_db (unwords [''TINSERT'', ''t'', ''+5'']) = Handled r"
    by (simp add: ProcessCommand_def fields_eval)
  obtain d' out where "r = Some (d', out)" using example_handled [OF r] by blast
  moreover have "FindTree example_db ''t'' = Some 0"
    by (simp add: FindTree_def AddHashTable_def AddTree_def NewDatabase_def NewAVLTree_def)
  moreover have "list_all is_word [''t'', ''+5'']" by (simp add: is_word_eval)
  moreover have "atoi ''+5'' = Some 5" "show_int 5 = ''5''" by (simp_all add: go_strings_eval)
  ultimately show ?thesis
    using tree_insert_then_get [OF example_db_reachable, of "''t''" "''+5''" 0 5 d' out] r by auto
qed

text \<open>
  C35. \<open>HGET\<close> cannot tell a missing key from a key stored with the value \<open>FALSE\<close>:
  on a reachable registry both answer the single line \<open>FALSE\<close>, and so does a
  request for a table that does not exist.
\<close>

theorem hget_false_ambiguous:
  assumes "db_reachable d" "list_all is_word [n, k]"
    and "FindHashTable d n = None \<or> (\<exists>i. FindHashTable d n = Some i \<and> ht_abs (HashTables d ! i) k \<in> {None, Some ''FALSE''})"
  shows "ProcessCommand d (unwords [''HGET'', n, k]) = Handled (answer d ''FALSE'')"
proof -
  have w: "is_word ''HGET''" by (simp add: is_word_eval)
  have "handleHGet d [n, k] = answer d ''FALSE''"
  proof (cases "FindHashTable d n")
    case (Some i)
    have "ht_inv (HashTables d ! i)"
      using ht_reachable_inv [OF db_ok_find(6) [OF db_reachable_ok [OF assms(1)] Some]] by blast
    then show ?thesis using assms(3) Some by (auto simp: handleHGet_def Search_abs)
  qed (simp add: handleHGet_def)
  then show ?thesis using assms(2) w by (simp add: ProcessCommand_def fields_unwords del: unwords.simps)
qed

theorem hget_false_ambiguous_witness:
  "ProcessCommand example_db (unwords [''HGET'', ''h'', ''k'']) = Handled (answer example_db ''FALSE'') \<and>
   ProcessCommand example_db (unwords [''HGET'', ''g'', ''k'']) = Handled (answer example_db ''FALSE'')"
proof -
  have "FindHashTable example_db ''h'' = Some 0" "FindHashTable example_db ''g'' = None"
    by (simp_all add: FindHashTable_def AddHashTable_def AddTree_def NewDatabase_def NewHashTable_def)
  moreover have "ht_abs (HashTables example_db ! 0) ''k'' = None"
    by (simp add: ht_abs_def entries_map_def AddHashTable_def AddTree_def NewDatabase_def NewHashTable_def)
  moreover have "list_all is_word [''h'', ''k'']" "list_all is_word [''g'', ''k'']" by (simp_all add: is_word_eval)
  ultimately show ?thesis
    using hget_false_ambiguous [OF example_db_reachable, of "''h''" "''k''"]
      hget_false_ambiguous [OF example_db_reachable, of "''g''" "''k''"] by blast
qed

text \<open>
  C36. \<open>TDEL\<close> on an existing tree always answers \<open>TRUE\<close>, whether or not the number
  was stored; the tree then holds its old keys without that number. (\<open>HDEL\<close>, in
  contrast, answers \<open>FALSE\<close> for a missing key.)
\<close>

theorem tdel_always_true:
  assumes "db_reachable d" "list_all is_word [n, s]" "FindTree d n = Some i" "atoi s = Some v"
  shows "\<exists>d'. ProcessCommand d (unwords [''TDEL'', n, s]) = Handled (Some (d', [Println ''TRUE''])) \<and>
              FindTree d' n = Some i \<and> SaveTree (Trees d' ! i) = del_list v (SaveTree (Trees d ! i))"
proof -
  have w: "is_word ''TDEL''" by (simp add: is_word_eval)
  have reach: "tree_reachable (Trees d ! i)" using db_ok_find(5) [OF db_reachable_ok [OF assms(1)] assms(3)] .
  obtain t' where t': "AVLTree_Remove (Trees d ! i) v = Some t'" using tree_Remove_ok [OF reach, of v] by blast
  let ?d' = "d\<lparr>Trees := (Trees d)[i := t']\<rparr>"
  have i: "i < length (Trees d)" using assms(3) findName_less by (simp add: FindTree_def)
  have "ProcessCommand d (unwords [''TDEL'', n, s]) = Handled (Some (?d', [Println ''TRUE'']))"
    using assms(2-4) w t' by (simp add: ProcessCommand_def fields_unwords handleTDel_def del: unwords.simps)
  moreover have "FindTree ?d' n = Some i"
    using assms(3) tree_Remove_del [OF reach t'] by (simp add: FindTree_def findName_update_same)
  moreover have "SaveTree (Trees ?d' ! i) = del_list v (SaveTree (Trees d ! i))"
    using tree_Remove_del [OF reach t'] i by simp
  ultimately show ?thesis by blast
qed

theorem tdel_always_true_witness:
  "\<exists>d'. ProcessCommand example_db (unwords [''TDEL'', ''t'', ''5'']) = Handled (Some (d', [Println ''TRUE''])) \<and>
        FindTree d' ''t'' = Some 0 \<and> SaveTree (Trees d' ! 0) = []"
proof -
  have "FindTree example_db ''t'' = Some 0"
    by (simp add: FindTree_def AddHashTable_def AddTree_def NewDatabase_def NewAVLTree_def)
  moreover have "list_all is_word [''t'', ''5'']" by (simp add: is_word_eval)
  moreover have "atoi ''5'' = Some 5" by (simp add: atoi_eval)
  moreover have "SaveTree (Trees example_db ! 0) = []"
    by (simp add: SaveTree_def AddHashTable_def AddTree_def NewDatabase_def NewAVLTree_def)
  ultimately show ?thesis using tdel_always_true [OF example_db_reachable, of "''t''" "''5''" 0 5] by simp
qed

text \<open>
  C37. \<open>CREATE\<close> does not check that the name is free: a second table of a name that
  is taken is appended to the registry, but every later command on that name finds
  the first one, so the new table can never be reached.
\<close>

theorem create_duplicate_shadowed:
  assumes "FindHashTable d n = Some i" "is_word n"
  shows "ProcessCommand d (unwords [''CREATE'', ''HASH'', n]) =
           Handled (Some (AddHashTable d (NewHashTable n), [Message ''hash table created''])) \<and>
         FindHashTable (AddHashTable d (NewHashTable n)) n = Some i \<and>
         length (HashTables (AddHashTable d (NewHashTable n))) = Suc (length (HashTables d))"
proof -
  have w: "list_all is_word [''CREATE'', ''HASH'', n]" using assms(2) by (simp add: is_word_eval)
  show ?thesis
    using assms(1) fields_unwords [OF w]
    by (simp add: ProcessCommand_def handleCreate_def FindHashTable_def AddHashTable_def findName_append
        del: unwords.simps)
qed

theorem create_duplicate_shadowed_witness:
  "ProcessCommand example_db (unwords [''CREATE'', ''HASH'', ''h'']) =
     Handled (Some (AddHashTable example_db (NewHashTable ''h''), [Message ''hash table created''])) \<and>
   FindHashTable (AddHashTable example_db (NewHashTable ''h'')) ''h'' = Some 0 \<and>
   length (HashTables (AddHashTable example_db (NewHashTable ''h''))) = 2"
proof -
  have "FindHashTable example_db ''h'' = Some 0"
    by (simp add: FindHashTable_def AddHashTable_def AddTree_def NewDatabase_def NewHashTable_def)
  moreover have "is_word ''h''" by (simp add: is_word_eval)
  ultimately show ?thesis using create_duplicate_shadowed [of example_db "''h''" 0]
    by (simp add: AddHashTable_def AddTree_def NewDatabase_def)
qed

end
