(* ===== verification/File_IO.thy ===== *)
theory File_IO
  imports Database Go_Strings
begin

text \<open>
  Saving and loading the registry as text: the \<open>TEXT\<close> branches of the
  \<open>Serialize*\<close> methods of \<^verbatim>\<open>src/serializer.go\<close> and the loaders of
  \<^verbatim>\<open>src/file_io.go\<close>. A file is its contents, a string; \<open>SaveDatabaseToFile\<close> returns
  the text it writes and \<open>LoadDatabaseFromFile\<close> reads the text of a file, \<open>None\<close>
  standing for a file that cannot be opened. A panic (a nil dereference, an index out of
  range, \<open>make\<close> with a negative length) is \<open>None\<close> in the result, the loaders' silent
  \<open>return\<close> on a malformed line leaves the registry unchanged. Go's \<open>int\<close> is 64 bits
  wide, so the sums in the loaders' length guards wrap (\<open>go_int_of\<close>).
\<close>

definition go_int_of :: "int \<Rightarrow> int" where
  "go_int_of x = sint (word_of_int x :: go_int)"

text \<open>A loop that applies a panicking step to each item in turn.\<close>

fun foldM :: "('s \<Rightarrow> 'a \<Rightarrow> 's option) \<Rightarrow> 's \<Rightarrow> 'a list \<Rightarrow> 's option" where
  "foldM f s [] = Some s"
| "foldM f s (x # xs) = do { s' \<leftarrow> f s x; foldM f s' xs }"

section \<open>Serializer, text format\<close>

text \<open>
  Every \<open>Serialize*\<close> method writes one line: \<open>fmt.Sprintf("TAG %s %d", name, count)\<close>,
  then \<open>" " + item\<close> for each item, then a newline.
\<close>

definition serialize_line :: "string \<Rightarrow> string \<Rightarrow> int \<Rightarrow> string list \<Rightarrow> string" where
  "serialize_line tag name cnt items =
     tag @ '' '' @ name @ '' '' @ show_int cnt @ concat (map (\<lambda>item. '' '' @ item) items) @ [CHR 0x0A]"

definition SerializeArray :: "go_array \<Rightarrow> string" where
  "SerializeArray arr = serialize_line ''ARRAY'' (array_name arr) (int (length (data arr))) (data arr)"

definition SerializeSLL :: "sll \<Rightarrow> string" where
  "SerializeSLL s = serialize_line ''SLL'' (sll_name s) (int (length (sll_head s))) (sll_head s)"

definition SerializeDLL :: "dll \<Rightarrow> string option" where
  "SerializeDLL l =
     do { vs \<leftarrow> walkNext (dll_heap l) (dll_head l);
          Some (serialize_line ''DLL'' (dll_name l) (int (length vs)) vs) }"

definition SerializeStack :: "stack \<Rightarrow> string" where
  "SerializeStack st =
     (let temp = stack_top st
      in serialize_line ''STACK'' (stack_name st) (int (length temp)) (rev temp))"

definition SerializeQueue :: "queue \<Rightarrow> string" where
  "SerializeQueue q = serialize_line ''QUEUE'' (queue_name q) (int (queue_size q)) (front q)"

definition SerializeTree :: "avl_tree \<Rightarrow> string" where
  "SerializeTree t =
     (let vals = SaveTree t
      in serialize_line ''TREE'' (tree_name t) (int (length vals)) (map show_int vals))"

definition SerializeHashTable :: "hash_table \<Rightarrow> string option" where
  "SerializeHashTable h =
     (if capacity h \<le> length (buckets h)
      then Some (serialize_line ''HASH'' (ht_name h) (int (ht_size h))
                  (concat (map (\<lambda>e. [Key e, Value e]) (concat (take (capacity h) (buckets h))))))
      else None)"

section \<open>Saving\<close>

definition SaveDatabaseToFile :: "database \<Rightarrow> string option" where
  "SaveDatabaseToFile d =
     do { dlls \<leftarrow> those (map SerializeDLL (DoublyLinkedLists d));
          tables \<leftarrow> those (map SerializeHashTable (HashTables d));
          Some (concat (map SerializeArray (Arrays d)) @ concat (map SerializeSLL (SinglyLinkedLists d)) @
                concat dlls @ concat (map SerializeStack (Stacks d)) @ concat (map SerializeQueue (Queues d)) @
                concat (map SerializeTree (Trees d)) @ concat tables) }"

section \<open>Loaders\<close>

text \<open>
  The loop \<open>for i := 0; i < size; i++ { ... parts[3+i] ... }\<close> shared by the loaders:
  \<open>f\<close> is the body, applied to the item; reading past the end of \<open>parts\<close> panics.
\<close>

function load_items :: "('s \<Rightarrow> string \<Rightarrow> 's option) \<Rightarrow> 's \<Rightarrow> string list \<Rightarrow> nat \<Rightarrow> nat \<Rightarrow> 's option" where
  "load_items f s parts i n =
     (if i < n then
        (if 3 + i < length parts then do { s' \<leftarrow> f s (parts ! (3 + i)); load_items f s' parts (Suc i) n }
         else None)
      else Some s)"
  by pat_completeness auto
termination by (relation "measure (\<lambda>(f, s, parts, i, n). n - i)") auto

declare load_items.simps [simp del]

text \<open>
  The common head of the loaders: at least three words, a decimal size, and a line long
  enough for it (the guard computed in wrapping 64-bit arithmetic).
\<close>

definition loadArray :: "database \<Rightarrow> string list \<Rightarrow> database option" where
  "loadArray d parts =
     (if length parts < 3 then Some d
      else case atoi (parts ! 2) of
        None \<Rightarrow> Some d
      | Some sz \<Rightarrow>
          if int (length parts) < go_int_of (3 + sz) then Some d
          else map_option (AddArray d)
                 (load_items (\<lambda>arr v. Some (Array_PushBack arr v)) (NewArray (parts ! 1)) parts 0 (nat sz)))"

definition loadSLL :: "database \<Rightarrow> string list \<Rightarrow> database option" where
  "loadSLL d parts =
     (if length parts < 3 then Some d
      else case atoi (parts ! 2) of
        None \<Rightarrow> Some d
      | Some sz \<Rightarrow>
          if int (length parts) < go_int_of (3 + sz) then Some d
          else map_option (AddSLL d)
                 (load_items (\<lambda>s v. Some (SLL_PushBack s v)) (NewSinglyLinkedList (parts ! 1))
                    parts 0 (nat sz)))"

definition loadDLL :: "database \<Rightarrow> string list \<Rightarrow> database option" where
  "loadDLL d parts =
     (if length parts < 3 then Some d
      else case atoi (parts ! 2) of
        None \<Rightarrow> Some d
      | Some sz \<Rightarrow>
          if int (length parts) < go_int_of (3 + sz) then Some d
          else map_option (AddDLL d)
                 (load_items DLL_PushBack (NewDoublyLinkedList (parts ! 1)) parts 0 (nat sz)))"

text \<open>
  \<open>loadStack\<close> copies the items into \<open>temp := make([]string, size)\<close> (a panic for a
  negative size) and pushes \<open>temp[size-1]\<close> first and \<open>temp[0]\<close> last.
\<close>

definition loadStack :: "database \<Rightarrow> string list \<Rightarrow> database option" where
  "loadStack d parts =
     (if length parts < 3 then Some d
      else case atoi (parts ! 2) of
        None \<Rightarrow> Some d
      | Some sz \<Rightarrow>
          if int (length parts) < go_int_of (3 + sz) then Some d
          else if sz < 0 then None
          else do { temp \<leftarrow> load_items (\<lambda>t v. Some (t @ [v])) [] parts 0 (nat sz);
                    Some (AddStack d (foldl Stack_Push (NewStack (parts ! 1)) (rev temp))) })"

definition loadQueue :: "database \<Rightarrow> string list \<Rightarrow> database option" where
  "loadQueue d parts =
     (if length parts < 3 then Some d
      else case atoi (parts ! 2) of
        None \<Rightarrow> Some d
      | Some sz \<Rightarrow>
          if int (length parts) < go_int_of (3 + sz) then Some d
          else map_option (AddQueue d) (load_items Queue_Push (NewQueue (parts ! 1)) parts 0 (nat sz)))"

text \<open>\<open>loadTree\<close> skips an item that is not a number.\<close>

definition loadTree :: "database \<Rightarrow> string list \<Rightarrow> database option" where
  "loadTree d parts =
     (if length parts < 3 then Some d
      else case atoi (parts ! 2) of
        None \<Rightarrow> Some d
      | Some sz \<Rightarrow>
          if int (length parts) < go_int_of (3 + sz) then Some d
          else map_option (AddTree d)
                 (load_items (\<lambda>t v. case atoi v of None \<Rightarrow> Some t | Some x \<Rightarrow> AVLTree_Insert t x)
                    (NewAVLTree (parts ! 1)) parts 0 (nat sz)))"

function load_pairs :: "hash_table \<Rightarrow> string list \<Rightarrow> nat \<Rightarrow> nat \<Rightarrow> hash_table option" where
  "load_pairs t parts i n =
     (if i < n then
        (if 3 + i * 2 + 1 < length parts
         then load_pairs (HashTable_Insert t (parts ! (3 + i * 2)) (parts ! (3 + i * 2 + 1))) parts (Suc i) n
         else None)
      else Some t)"
  by pat_completeness auto
termination by (relation "measure (\<lambda>(t, parts, i, n). n - i)") auto

declare load_pairs.simps [simp del]

definition loadHashTable :: "database \<Rightarrow> string list \<Rightarrow> database option" where
  "loadHashTable d parts =
     (if length parts < 3 then Some d
      else case atoi (parts ! 2) of
        None \<Rightarrow> Some d
      | Some sz \<Rightarrow>
          if int (length parts) < go_int_of (3 + go_int_of (sz * 2)) then Some d
          else map_option (AddHashTable d) (load_pairs (NewHashTable (parts ! 1)) parts 0 (nat sz)))"

section \<open>Loading\<close>

definition loadLine :: "database \<Rightarrow> string \<Rightarrow> database option" where
  "loadLine d line =
     (let parts = fields line
      in if length parts < 2 then Some d
         else if parts ! 0 = ''ARRAY'' then loadArray d parts
         else if parts ! 0 = ''SLL'' then loadSLL d parts
         else if parts ! 0 = ''DLL'' then loadDLL d parts
         else if parts ! 0 = ''STACK'' then loadStack d parts
         else if parts ! 0 = ''QUEUE'' then loadQueue d parts
         else if parts ! 0 = ''TREE'' then loadTree d parts
         else if parts ! 0 = ''HASH'' then loadHashTable d parts
         else Some d)"

fun loadLines :: "database \<Rightarrow> string list \<Rightarrow> database option" where
  "loadLines d [] = Some d"
| "loadLines d (line # lines) = do { d' \<leftarrow> loadLine d line; loadLines d' lines }"

definition LoadDatabaseFromFile :: "database \<Rightarrow> string option \<Rightarrow> (go_error + database) option" where
  "LoadDatabaseFromFile d file =
     (case file of
        None \<Rightarrow> Some (Inl ''open: no such file or directory'')
      | Some content \<Rightarrow> map_option Inr (loadLines (Database_Cleanup d) (scanLines content)))"

section \<open>The text of a registry\<close>

text \<open>
  The round trip holds for registries whose names and stored strings are words and whose
  containers hold fewer than \<open>2^61\<close> items (so that no size in a line wraps); the
  helpers below name the key-value pairs of a table and the line written for each
  instance without its newline.
\<close>

definition entry_pairs :: "hash_table \<Rightarrow> (string \<times> string) list" where
  "entry_pairs h = map (\<lambda>e. (Key e, Value e)) (concat (buckets h))"

definition db_words :: "database \<Rightarrow> bool" where
  "db_words d \<longleftrightarrow>
     list_all (\<lambda>a. is_word (array_name a) \<and> list_all is_word (data a) \<and> length (data a) < 2 ^ 61) (Arrays d) \<and>
     list_all (\<lambda>s. is_word (sll_name s) \<and> list_all is_word (sll_head s) \<and> length (sll_head s) < 2 ^ 61)
       (SinglyLinkedLists d) \<and>
     list_all (\<lambda>l. is_word (dll_name l) \<and> (case PrintForward l of None \<Rightarrow> False | Some vs \<Rightarrow> list_all is_word vs \<and> length vs < 2 ^ 61))
       (DoublyLinkedLists d) \<and>
     list_all (\<lambda>s. is_word (stack_name s) \<and> list_all is_word (stack_top s) \<and> length (stack_top s) < 2 ^ 61) (Stacks d) \<and>
     list_all (\<lambda>q. is_word (queue_name q) \<and> list_all is_word (front q) \<and> length (front q) < 2 ^ 61) (Queues d) \<and>
     list_all (\<lambda>t. is_word (tree_name t) \<and> list_all (\<lambda>v. - (2 ^ 63) \<le> v \<and> v < 2 ^ 63) (SaveTree t) \<and>
                  length (SaveTree t) < 2 ^ 61) (Trees d) \<and>
     list_all (\<lambda>h. is_word (ht_name h) \<and> list_all (\<lambda>(k, v). is_word k \<and> is_word v) (entry_pairs h) \<and>
                  ht_size h < 2 ^ 61) (HashTables d)"


text \<open>The line each \<open>Serialize*\<close> method writes, without its newline.\<close>

definition array_line :: "go_array \<Rightarrow> string" where
  "array_line a = unwords (''ARRAY'' # array_name a # show_int (int (length (data a))) # data a)"

definition sll_line :: "sll \<Rightarrow> string" where
  "sll_line s = unwords (''SLL'' # sll_name s # show_int (int (length (sll_head s))) # sll_head s)"

definition dll_line :: "dll \<Rightarrow> string" where
  "dll_line l = unwords (''DLL'' # dll_name l # show_int (int (length (the (PrintForward l)))) # the (PrintForward l))"

definition stack_line :: "stack \<Rightarrow> string" where
  "stack_line st = unwords (''STACK'' # stack_name st # show_int (int (length (stack_top st))) # rev (stack_top st))"

definition queue_line :: "queue \<Rightarrow> string" where
  "queue_line q = unwords (''QUEUE'' # queue_name q # show_int (int (queue_size q)) # front q)"

definition tree_line :: "avl_tree \<Rightarrow> string" where
  "tree_line t = unwords (''TREE'' # tree_name t # show_int (int (length (SaveTree t))) # map show_int (SaveTree t))"

definition hash_line :: "hash_table \<Rightarrow> string" where
  "hash_line h = unwords (''HASH'' # ht_name h # show_int (int (ht_size h)) # concat (map (\<lambda>(k, v). [k, v]) (entry_pairs h)))"

definition text_lines :: "database \<Rightarrow> string list" where
  "text_lines d =
     map array_line (Arrays d) @ map sll_line (SinglyLinkedLists d) @ map dll_line (DoublyLinkedLists d) @
     map stack_line (Stacks d) @ map queue_line (Queues d) @ map tree_line (Trees d) @ map hash_line (HashTables d)"

section \<open>Properties of saving and loading\<close>

lemma go_int_of_small: "- (2 ^ 63) \<le> x \<Longrightarrow> x < 2 ^ 63 \<Longrightarrow> go_int_of x = x"
  by (simp add: go_int_of_def sint_sbintrunc' signed_take_bit_int_eq_self)

lemma load_items_foldM:
  "i \<le> length items \<Longrightarrow> load_items f s (p0 # p1 # p2 # items) i (length items) = foldM f s (drop i items)"
proof (induction f s "p0 # p1 # p2 # items" i "length items" rule: load_items.induct)
  case (1 f s i)
  show ?case
  proof (cases "i < length items")
    case True
    then have "drop i items = items ! i # drop (Suc i) items" by (simp add: Cons_nth_drop_Suc)
    with True 1 show ?thesis by (subst load_items.simps) (auto split: Option.bind_split)
  qed (use 1 in \<open>simp add: load_items.simps\<close>)
qed

lemma load_items_short:
  "length parts < 3 + n \<Longrightarrow> i < n \<Longrightarrow> (\<And>s v. f s v \<noteq> None) \<Longrightarrow> load_items f s parts i n = None"
proof (induction f s parts i n rule: load_items.induct)
  case (1 f s parts i n)
  show ?case
  proof (cases "i < n")
    case True
    then show ?thesis using 1 by (subst load_items.simps) (auto split: Option.bind_split)
  next
    case False
    then show ?thesis using 1 by simp
  qed
qed

lemma foldM_array:
  "foldM (\<lambda>arr v. Some (Array_PushBack arr v)) a items = Some (a\<lparr>data := data a @ items\<rparr>)"
  by (induction items arbitrary: a) (simp_all add: Array_PushBack_def)

lemma foldM_sll:
  "sll_inv s \<Longrightarrow> foldM (\<lambda>s v. Some (SLL_PushBack s v)) s items =
     Some (s\<lparr>sll_head := sll_head s @ items, sll_tail := last_pos (sll_head s @ items)\<rparr>)"
proof (induction items arbitrary: s)
  case Nil
  then show ?case by (simp add: sll_inv_def)
next
  case (Cons v items)
  have "sll_inv (s\<lparr>sll_head := sll_head s @ [v], sll_tail := last_pos (sll_head s @ [v])\<rparr>)"
    by (simp add: sll_inv_def)
  from Cons.IH [OF this] Cons.prems show ?case by (simp add: PushBack_inv)
qed

lemma foldM_dll:
  "dll_repr d as \<Longrightarrow> \<exists>d' as'. foldM DLL_PushBack d items = Some d' \<and> dll_repr d' as' \<and>
     dll_values (dll_heap d') as' = dll_values (dll_heap d) as @ items \<and> dll_name d' = dll_name d"
proof (induction items arbitrary: d as)
  case (Cons v items)
  obtain d1 where d1: "DLL_PushBack d v = Some d1" "dll_repr d1 (as @ [dll_alloc d])"
    "dll_values (dll_heap d1) (as @ [dll_alloc d]) = dll_values (dll_heap d) as @ [v]" "dll_name d1 = dll_name d"
    using PushBack_repr [OF Cons.prems] by blast
  from Cons.IH [OF d1(2)] d1 show ?case by auto
qed auto

lemma foldM_queue:
  "queue_inv q \<Longrightarrow> \<exists>q'. foldM Queue_Push q items = Some q' \<and> queue_inv q' \<and>
     front q' = front q @ items \<and> queue_name q' = queue_name q"
proof (induction items arbitrary: q)
  case (Cons v items)
  let ?q1 = "q\<lparr>front := front q @ [v], rear := Some (length (front q)), queue_size := queue_size q + 1\<rparr>"
  have "queue_inv ?q1" using Cons.prems by (simp add: queue_inv_def)
  from Cons.IH [OF this] Cons.prems show ?case by (simp add: queue_Push_inv)
qed auto

lemma foldM_snoc: "foldM (\<lambda>t v. Some (t @ [v])) acc items = Some (acc @ items)"
  by (induction items arbitrary: acc) simp_all

lemma foldl_stack_Push:
  "foldl Stack_Push st xs = st\<lparr>stack_top := rev xs @ stack_top st, stack_size := stack_size st + length xs\<rparr>"
  by (induction xs arbitrary: st) (simp_all add: Stack_Push_def)

lemma foldM_tree:
  assumes "tree_reachable t" "strictly_sorted (inorder (root t) @ vs)" "list_all (\<lambda>v. - (2 ^ 63) \<le> v \<and> v < 2 ^ 63) vs"
  shows "\<exists>t'. foldM (\<lambda>t v. case atoi v of None \<Rightarrow> Some t | Some x \<Rightarrow> AVLTree_Insert t x) t (map show_int vs) = Some t' \<and>
           tree_reachable t' \<and> inorder (root t') = inorder (root t) @ vs \<and> tree_name t' = tree_name t"
  using assms
proof (induction vs arbitrary: t)
  case (Cons v vs)
  have inv: "avl (root t)" "strictly_sorted (inorder (root t))" using tree_reachable_avl [OF Cons.prems(1)] by simp_all
  have gt: "\<forall>y \<in> set (inorder (root t)). y < v" using Cons.prems(2) by (simp add: sorted_wrt_append)
  obtain t1 where t1: "AVLTree_Insert t v = Some t1" "inorder (root t1) = inorder (root t) @ [v]" "tree_name t1 = tree_name t"
    using Insert_correct [OF inv, of v] ins_list_greater [OF gt] by auto
  have "tree_reachable t1" using tree_reachable.insert [OF Cons.prems(1) t1(1)] .
  moreover have "strictly_sorted (inorder (root t1) @ vs)" using Cons.prems(2) t1(2) by simp
  ultimately show ?case using Cons.IH Cons.prems(3) t1 by (fastforce simp: atoi_show_int)
qed simp

lemma pairs_nth:
  "i < length kvs \<Longrightarrow> concat (map (\<lambda>(k, v). [k, v]) kvs) ! (i * 2) = fst (kvs ! i) \<and>
                      concat (map (\<lambda>(k, v). [k, v]) kvs) ! (i * 2 + 1) = snd (kvs ! i)"
proof (induction kvs arbitrary: i)
  case (Cons kv kvs)
  then show ?case by (cases i) (auto split: prod.split)
qed simp

lemma length_pairs [simp]: "length (concat (map (\<lambda>(k, v). [k, v]) kvs)) = 2 * length kvs"
  by (induction kvs) auto

lemma load_pairs_fold:
  "i \<le> length kvs \<Longrightarrow>
   load_pairs t (p0 # p1 # p2 # concat (map (\<lambda>(k, v). [k, v]) kvs)) i (length kvs) =
     Some (fold (\<lambda>(k, v) h. HashTable_Insert h k v) (drop i kvs) t)"
proof (induction t "p0 # p1 # p2 # concat (map (\<lambda>(k, v). [k, v]) kvs)" i "length kvs" rule: load_pairs.induct)
  case (1 t i)
  show ?case
  proof (cases "i < length kvs")
    case True
    then have "drop i kvs = kvs ! i # drop (Suc i) kvs" by (simp add: Cons_nth_drop_Suc)
    with True 1 pairs_nth [OF True] show ?thesis
      by (subst load_pairs.simps) (simp split: prod.split)
  qed (use 1 in \<open>simp add: load_pairs.simps\<close>)
qed

lemma serialize_line_unwords:
  "serialize_line tag name cnt items = unwords (tag # name # show_int cnt # items) @ [CHR 0x0A]"
  by (simp add: serialize_line_def unwords_Cons)

lemma load_header:
  assumes "n < 2 ^ 61"
  shows "atoi (show_int (int n)) = Some (int n) \<and> go_int_of (3 + int n) = 3 + int n \<and>
         go_int_of (3 + go_int_of (int n * 2)) = 3 + int n * 2"
proof -
  have "int n < 2 ^ 61" using assms by (metis of_nat_less_iff of_nat_numeral of_nat_power)
  then have "- (2 ^ 63) \<le> int n * 2" "int n * 2 < 2 ^ 63" "- (2 ^ 63) \<le> 3 + int n * 2"
    "3 + int n * 2 < 2 ^ 63" "- (2 ^ 63) \<le> 3 + int n" "3 + int n < 2 ^ 63" by simp_all
  then show ?thesis by (simp add: atoi_show_int go_int_of_small)
qed

lemma words_header: "is_word tag \<Longrightarrow> is_word name \<Longrightarrow> list_all is_word items \<Longrightarrow>
  list_all is_word (tag # name # show_int cnt # items)"
  by (simp add: is_word_show_int)

lemma loadLine_array:
  assumes "is_word (array_name a)" "list_all is_word (data a)" "length (data a) < 2 ^ 61"
  shows "loadLine d (unwords (''ARRAY'' # array_name a # show_int (int (length (data a))) # data a)) =
           Some (AddArray d a)"
proof -
  have w: "is_word ''ARRAY''" by (simp add: is_word_eval)
  have a: "\<lparr>array_name = array_name a, data = data a\<rparr> = a" by simp
  show ?thesis
    using fields_unwords [OF words_header [OF w assms(1,2)]] load_header [OF assms(3)]
    by (simp add: loadLine_def loadArray_def load_items_foldM [where i = 0, simplified] foldM_array
        NewArray_def a del: unwords.simps)
qed

lemma loadLine_sll:
  assumes "sll_inv s" "is_word (sll_name s)" "list_all is_word (sll_head s)" "length (sll_head s) < 2 ^ 61"
  shows "loadLine d (unwords (''SLL'' # sll_name s # show_int (int (length (sll_head s))) # sll_head s)) =
           Some (AddSLL d s)"
proof -
  have w: "is_word ''SLL''" by (simp add: is_word_eval)
  have s: "\<lparr>sll_name = sll_name s, sll_head = sll_head s, sll_tail = last_pos (sll_head s)\<rparr> = s"
    using assms(1) by (simp add: sll_inv_def)
  have i: "sll_inv (NewSinglyLinkedList (sll_name s))" by (simp add: sll_inv_def NewSinglyLinkedList_def)
  have fo: "foldM (\<lambda>s v. Some (SLL_PushBack s v)) (NewSinglyLinkedList (sll_name s)) (sll_head s) = Some s"
    using foldM_sll [OF i, of "sll_head s"] by (simp add: NewSinglyLinkedList_def s)
  show ?thesis
    using fields_unwords [OF words_header [OF w assms(2,3)]] load_header [OF assms(4)]
    by (simp add: loadLine_def loadSLL_def load_items_foldM [where i = 0, simplified] fo del: unwords.simps)
qed

lemma foldM_dll_reachable:
  "dll_reachable l \<Longrightarrow> foldM DLL_PushBack l items = Some l' \<Longrightarrow> dll_reachable l'"
  by (induction items arbitrary: l) (auto split: Option.bind_splits intro: dll_reachable.push_back)

lemma loadLine_dll:
  assumes "is_word (dll_name l)" "list_all is_word vs" "length vs < 2 ^ 61"
  shows "\<exists>l' as'. loadLine d (unwords (''DLL'' # dll_name l # show_int (int (length vs)) # vs)) =
           Some (AddDLL d l') \<and> dll_reachable l' \<and> dll_repr l' as' \<and> PrintForward l' = Some vs \<and>
           dll_name l' = dll_name l"
proof -
  have w: "is_word ''DLL''" by (simp add: is_word_eval)
  have r: "dll_repr (NewDoublyLinkedList (dll_name l)) []"
    by (simp add: NewDoublyLinkedList_def dll_repr_def)
  obtain l' as' where l': "foldM DLL_PushBack (NewDoublyLinkedList (dll_name l)) vs = Some l'"
    "dll_repr l' as'" "dll_values (dll_heap l') as' = vs" "dll_name l' = dll_name l"
    using foldM_dll [OF r, of vs] by (auto simp: dll_values_def NewDoublyLinkedList_def)
  have "loadLine d (unwords (''DLL'' # dll_name l # show_int (int (length vs)) # vs)) = Some (AddDLL d l')"
    using fields_unwords [OF words_header [OF w assms(1,2)]] load_header [OF assms(3)] l'(1)
    by (simp add: loadLine_def loadDLL_def load_items_foldM [where i = 0, simplified] del: unwords.simps)
  moreover have "dll_reachable l'" using foldM_dll_reachable [OF dll_reachable.new l'(1)] .
  ultimately show ?thesis using l' dll_repr_print [OF l'(2)] by blast
qed

lemma loadLine_stack:
  assumes "stack_inv st" "is_word (stack_name st)" "list_all is_word (stack_top st)" "length (stack_top st) < 2 ^ 61"
  shows "loadLine d (unwords (''STACK'' # stack_name st # show_int (int (length (stack_top st))) # rev (stack_top st))) =
           Some (AddStack d (st\<lparr>stack_top := rev (stack_top st)\<rparr>))"
proof -
  have w: "is_word ''STACK''" by (simp add: is_word_eval)
  have "list_all is_word (rev (stack_top st))" using assms(3) by simp
  note f = fields_unwords [OF words_header [OF w assms(2) this]]
  have st: "\<lparr>stack_name = stack_name st, stack_top = rev (stack_top st), stack_size = length (stack_top st)\<rparr> =
            st\<lparr>stack_top := rev (stack_top st)\<rparr>"
    using assms(1) by (simp add: stack_inv_def)
  show ?thesis
    using f load_header [OF assms(4)]
    by (simp add: loadLine_def loadStack_def load_items_foldM [of 0 "rev (stack_top st)", simplified] foldM_snoc
        foldl_stack_Push NewStack_def st del: unwords.simps)
qed

lemma loadLine_queue:
  assumes "queue_inv q" "is_word (queue_name q)" "list_all is_word (front q)" "length (front q) < 2 ^ 61"
  shows "loadLine d (unwords (''QUEUE'' # queue_name q # show_int (int (queue_size q)) # front q)) =
           Some (AddQueue d q)"
proof -
  have w: "is_word ''QUEUE''" by (simp add: is_word_eval)
  have n: "queue_size q = length (front q)" using assms(1) by (simp add: queue_inv_def)
  have i: "queue_inv (NewQueue (queue_name q))" by (simp add: queue_inv_def NewQueue_def)
  obtain q' where q': "foldM Queue_Push (NewQueue (queue_name q)) (front q) = Some q'" "queue_inv q'"
    "front q' = front q" "queue_name q' = queue_name q"
    using foldM_queue [OF i, of "front q"] by (auto simp: NewQueue_def)
  have "q' = q" using q'(2-4) assms(1) by (intro queue.equality) (simp_all add: queue_inv_def)
  then show ?thesis
    using fields_unwords [OF words_header [OF w assms(2,3)]] load_header [OF assms(4)] q'(1) n
    by (simp add: loadLine_def loadQueue_def load_items_foldM [where i = 0, simplified] del: unwords.simps)
qed

lemma loadLine_tree:
  assumes "tree_reachable t" "is_word (tree_name t)" "list_all (\<lambda>v. - (2 ^ 63) \<le> v \<and> v < 2 ^ 63) (SaveTree t)"
    "length (SaveTree t) < 2 ^ 61"
  shows "\<exists>t'. loadLine d (unwords (''TREE'' # tree_name t # show_int (int (length (SaveTree t))) # map show_int (SaveTree t))) =
           Some (AddTree d t') \<and> tree_reachable t' \<and> SaveTree t' = SaveTree t \<and> tree_name t' = tree_name t"
proof -
  have w: "is_word ''TREE''" by (simp add: is_word_eval)
  have "list_all is_word (map show_int (SaveTree t))" by (simp add: list_all_iff is_word_show_int)
  note f = fields_unwords [OF words_header [OF w assms(2) this]]
  have "strictly_sorted (inorder (root (NewAVLTree (tree_name t))) @ SaveTree t)"
    using tree_reachable_avl [OF assms(1)] by (simp add: NewAVLTree_def SaveTree_inorder)
  then obtain t' where t': "foldM (\<lambda>t v. case atoi v of None \<Rightarrow> Some t | Some x \<Rightarrow> AVLTree_Insert t x)
      (NewAVLTree (tree_name t)) (map show_int (SaveTree t)) = Some t'" "tree_reachable t'"
      "inorder (root t') = SaveTree t" "tree_name t' = tree_name t"
    using foldM_tree [OF tree_reachable.new _ assms(3)] by (fastforce simp: NewAVLTree_def)
  have "loadLine d (unwords (''TREE'' # tree_name t # show_int (int (length (SaveTree t))) # map show_int (SaveTree t))) =
        Some (AddTree d t')"
    using f load_header [OF assms(4)] t'(1)
    by (simp add: loadLine_def loadTree_def load_items_foldM [of 0 "map show_int (SaveTree t)", simplified]
        del: unwords.simps)
  then show ?thesis using t' by (auto simp: SaveTree_inorder)
qed

lemma fold_Insert_name: "ht_name (fold (\<lambda>(k, v) h. HashTable_Insert h k v) kvs h) = ht_name h"
  by (induction kvs arbitrary: h) auto

lemma loadLine_hash:
  assumes "ht_inv h" "is_word (ht_name h)" "list_all (\<lambda>(k, v). is_word k \<and> is_word v) (entry_pairs h)"
    "ht_size h < 2 ^ 61"
  shows "\<exists>h'. loadLine d (unwords (''HASH'' # ht_name h # show_int (int (ht_size h)) #
                                     concat (map (\<lambda>(k, v). [k, v]) (entry_pairs h)))) =
           Some (AddHashTable d h') \<and> ht_reachable h' \<and> ht_abs h' = ht_abs h \<and> ht_name h' = ht_name h"
proof -
  let ?kvs = "entry_pairs h"
  have w: "is_word ''HASH''" by (simp add: is_word_eval)
  have "list_all is_word (concat (map (\<lambda>(k, v). [k, v]) ?kvs))"
    using assms(3) by (auto simp: list_all_iff)
  note f = fields_unwords [OF words_header [OF w assms(2) this]]
  have n: "ht_size h = length ?kvs" using assms(1) by (simp add: ht_inv_def entry_pairs_def)
  let ?h' = "fold (\<lambda>(k, v) h. HashTable_Insert h k v) ?kvs (NewHashTable (ht_name h))"
  have "loadLine d (unwords (''HASH'' # ht_name h # show_int (int (ht_size h)) # concat (map (\<lambda>(k, v). [k, v]) ?kvs))) =
        Some (AddHashTable d ?h')"
    using f load_header [OF assms(4)] n load_pairs_fold [of 0 ?kvs, simplified]
    by (simp add: loadLine_def loadHashTable_def del: unwords.simps)
  moreover have "ht_reachable ?h'" "ht_abs ?h' = fold (\<lambda>(k, v) m. m(k \<mapsto> v)) ?kvs Map.empty"
    using fold_Insert [OF ht_reachable.new, of ?kvs "ht_name h"]
    by (simp_all add: ht_abs_def entries_map_def NewHashTable_def)
  moreover have "distinct (map fst ?kvs)" using assms(1) by (simp add: ht_inv_def entry_pairs_def comp_def)
  then have "fold (\<lambda>(k, v) m. m(k \<mapsto> v)) ?kvs Map.empty = ht_abs h"
    by (simp add: fold_upd_map_add map_of_rev_distinct ht_abs_def entries_map_def entry_pairs_def)
  ultimately show ?thesis by (auto simp: fold_Insert_name NewHashTable_def)
qed

lemma loadLines_append: "loadLines d (xs @ ys) = do { d' \<leftarrow> loadLines d xs; loadLines d' ys }"
  by (induction d xs rule: loadLines.induct) (auto split: Option.bind_split)

lemma loadLines_map:
  assumes "\<And>x d. x \<in> set xs \<Longrightarrow> \<exists>y. loadLine d (L x) = Some (add d y) \<and> R x y"
  shows "\<exists>ys. loadLines d (map L xs) = Some (foldl add d ys) \<and> list_all2 R xs ys"
  using assms
proof (induction xs arbitrary: d)
  case (Cons x xs)
  obtain y where y: "loadLine d (L x) = Some (add d y)" "R x y" using Cons.prems by force
  obtain ys where "loadLines (add d y) (map L xs) = Some (foldl add (add d y) ys)" "list_all2 R xs ys"
    using Cons.IH [of "add d y"] Cons.prems by force
  with y show ?case by (intro exI [of _ "y # ys"]) simp
qed simp

lemma foldl_AddArray: "foldl AddArray d ys = d\<lparr>Arrays := Arrays d @ ys\<rparr>"
  by (induction ys arbitrary: d) (simp_all add: AddArray_def)

lemma foldl_AddSLL: "foldl AddSLL d ys = d\<lparr>SinglyLinkedLists := SinglyLinkedLists d @ ys\<rparr>"
  by (induction ys arbitrary: d) (simp_all add: AddSLL_def)

lemma foldl_AddDLL: "foldl AddDLL d ys = d\<lparr>DoublyLinkedLists := DoublyLinkedLists d @ ys\<rparr>"
  by (induction ys arbitrary: d) (simp_all add: AddDLL_def)

lemma foldl_AddStack: "foldl AddStack d ys = d\<lparr>Stacks := Stacks d @ ys\<rparr>"
  by (induction ys arbitrary: d) (simp_all add: AddStack_def)

lemma foldl_AddQueue: "foldl AddQueue d ys = d\<lparr>Queues := Queues d @ ys\<rparr>"
  by (induction ys arbitrary: d) (simp_all add: AddQueue_def)

lemma foldl_AddTree: "foldl AddTree d ys = d\<lparr>Trees := Trees d @ ys\<rparr>"
  by (induction ys arbitrary: d) (simp_all add: AddTree_def)

lemma foldl_AddHashTable: "foldl AddHashTable d ys = d\<lparr>HashTables := HashTables d @ ys\<rparr>"
  by (induction ys arbitrary: d) (simp_all add: AddHashTable_def)

lemmas foldl_Add = foldl_AddArray foldl_AddSLL foldl_AddDLL foldl_AddStack foldl_AddQueue foldl_AddTree
  foldl_AddHashTable

lemma those_map_Some: "(\<And>x. x \<in> set xs \<Longrightarrow> f x = Some (g x)) \<Longrightarrow> those (map f xs) = Some (map g xs)"
  by (induction xs) auto

lemma SerializeDLL_repr:
  "dll_repr l as \<Longrightarrow> SerializeDLL l =
     Some (serialize_line ''DLL'' (dll_name l) (int (length (the (PrintForward l)))) (the (PrintForward l)))"
  using dll_repr_print [of l as] by (simp add: SerializeDLL_def PrintForward_def)

lemma SerializeHashTable_inv:
  "ht_inv h \<Longrightarrow> SerializeHashTable h =
     Some (serialize_line ''HASH'' (ht_name h) (int (ht_size h)) (concat (map (\<lambda>(k, v). [k, v]) (entry_pairs h))))"
  by (simp add: SerializeHashTable_def ht_inv_def entry_pairs_def comp_def)

lemma stack_reachable_foldl: "stack_reachable s \<Longrightarrow> stack_reachable (foldl Stack_Push s xs)"
  by (induction xs arbitrary: s) (simp_all add: stack_reachable.push)

lemma stack_reachable_rev:
  "stack_inv st \<Longrightarrow> stack_reachable (st\<lparr>stack_top := rev (stack_top st)\<rparr>)"
proof -
  assume "stack_inv st"
  then have "foldl Stack_Push (NewStack (stack_name st)) (stack_top st) = st\<lparr>stack_top := rev (stack_top st)\<rparr>"
    by (simp add: foldl_stack_Push NewStack_def stack_inv_def)
  then show ?thesis using stack_reachable_foldl [OF stack_reachable.new] by metis
qed

lemma serialize_as_lines:
  "SerializeArray = (\<lambda>a. array_line a @ [CHR 0x0A])" "SerializeSLL = (\<lambda>s. sll_line s @ [CHR 0x0A])"
  "SerializeStack = (\<lambda>st. stack_line st @ [CHR 0x0A])" "SerializeQueue = (\<lambda>q. queue_line q @ [CHR 0x0A])"
  "SerializeTree = (\<lambda>t. tree_line t @ [CHR 0x0A])"
  by (simp_all add: fun_eq_iff SerializeArray_def SerializeSLL_def SerializeStack_def SerializeQueue_def
      SerializeTree_def serialize_line_unwords array_line_def sll_line_def stack_line_def queue_line_def
      tree_line_def Let_def)

lemma save_text_lines:
  assumes "db_ok d"
  shows "SaveDatabaseToFile d = Some (concat (map (\<lambda>l. l @ [CHR 0x0A]) (text_lines d)))"
proof -
  have "those (map SerializeDLL (DoublyLinkedLists d)) = Some (map (\<lambda>l. dll_line l @ [CHR 0x0A]) (DoublyLinkedLists d))"
  proof (rule those_map_Some)
    fix l assume "l \<in> set (DoublyLinkedLists d)"
    then have "dll_reachable l" using assms by (auto simp: db_ok_def list_all_iff)
    then obtain as where "dll_repr l as" using dll_reachable_repr by blast
    then show "SerializeDLL l = Some (dll_line l @ [CHR 0x0A])"
      by (simp add: SerializeDLL_repr serialize_line_unwords dll_line_def)
  qed
  moreover have "those (map SerializeHashTable (HashTables d)) = Some (map (\<lambda>h. hash_line h @ [CHR 0x0A]) (HashTables d))"
  proof (rule those_map_Some)
    fix h assume "h \<in> set (HashTables d)"
    then have "ht_inv h" using assms ht_reachable_inv by (auto simp: db_ok_def list_all_iff)
    then show "SerializeHashTable h = Some (hash_line h @ [CHR 0x0A])"
      by (simp add: SerializeHashTable_inv serialize_line_unwords hash_line_def)
  qed
  ultimately show ?thesis by (simp add: SaveDatabaseToFile_def text_lines_def serialize_as_lines comp_def)
qed

lemma header_line:
  "is_word tag \<Longrightarrow> is_word name \<Longrightarrow> list_all is_word items \<Longrightarrow>
   CHR 0x0A \<notin> set (unwords (tag # name # show_int c # items)) \<and>
   dropCR (unwords (tag # name # show_int c # items)) = unwords (tag # name # show_int c # items)"
  using unwords_line [OF words_header] by blast

lemma text_lines_scan:
  assumes "db_words d"
  shows "scanLines (concat (map (\<lambda>l. l @ [CHR 0x0A]) (text_lines d))) = text_lines d"
proof (rule scanLines_lines)
  let ?ok = "\<lambda>l. CHR 0x0A \<notin> set l \<and> dropCR l = l"
  have w: "is_word ''ARRAY''" "is_word ''SLL''" "is_word ''DLL''" "is_word ''STACK''" "is_word ''QUEUE''"
    "is_word ''TREE''" "is_word ''HASH''" by (simp_all add: is_word_eval)
  have "\<forall>a \<in> set (Arrays d). ?ok (array_line a)"
    using assms header_line [OF w(1)] by (simp add: db_words_def list_all_iff array_line_def del: unwords.simps)
  moreover have "\<forall>s \<in> set (SinglyLinkedLists d). ?ok (sll_line s)"
    using assms header_line [OF w(2)] by (simp add: db_words_def list_all_iff sll_line_def del: unwords.simps)
  moreover have "\<forall>l \<in> set (DoublyLinkedLists d). ?ok (dll_line l)"
  proof
    fix l assume "l \<in> set (DoublyLinkedLists d)"
    then have "is_word (dll_name l)" "list_all is_word (the (PrintForward l))"
      using assms by (auto simp: db_words_def list_all_iff split: option.splits)
    then show "?ok (dll_line l)" using header_line [OF w(3)] by (simp add: dll_line_def del: unwords.simps)
  qed
  moreover have "\<forall>st \<in> set (Stacks d). ?ok (stack_line st)"
    using assms header_line [OF w(4)] by (simp add: db_words_def list_all_iff stack_line_def del: unwords.simps)
  moreover have "\<forall>q \<in> set (Queues d). ?ok (queue_line q)"
    using assms header_line [OF w(5)] by (simp add: db_words_def list_all_iff queue_line_def del: unwords.simps)
  moreover have "\<forall>t \<in> set (Trees d). ?ok (tree_line t)"
    using assms header_line [OF w(6)] by (simp add: db_words_def list_all_iff tree_line_def is_word_show_int del: unwords.simps)
  moreover have "\<forall>h \<in> set (HashTables d). ?ok (hash_line h)"
  proof
    fix h assume "h \<in> set (HashTables d)"
    then have "is_word (ht_name h)" "list_all is_word (concat (map (\<lambda>(k, v). [k, v]) (entry_pairs h)))"
      using assms by (auto simp: db_words_def list_all_iff)
    then show "?ok (hash_line h)" using header_line [OF w(7)] by (simp add: hash_line_def del: unwords.simps)
  qed
  ultimately show "\<forall>l \<in> set (text_lines d). ?ok l" by (auto simp: text_lines_def)
qed

lemma list_all2_map_eq: "list_all2 R xs ys \<Longrightarrow> (\<And>x y. R x y \<Longrightarrow> g y = f x) \<Longrightarrow> map g ys = map f xs"
  by (induction xs arbitrary: ys) (auto simp: list_all2_Cons1)

lemma list_all2_all: "list_all2 R xs ys \<Longrightarrow> (\<And>x y. R x y \<Longrightarrow> P y) \<Longrightarrow> list_all P ys"
  by (induction xs arbitrary: ys) (auto simp: list_all2_Cons1)

lemma load_arrays:
  "list_all (\<lambda>a. is_word (array_name a) \<and> list_all is_word (data a) \<and> length (data a) < 2 ^ 61) xs \<Longrightarrow>
   \<exists>ys. loadLines d (map array_line xs) = Some (d\<lparr>Arrays := Arrays d @ ys\<rparr>) \<and> list_all2 (\<lambda>x y. y = x) xs ys"
  using loadLines_map [of xs array_line AddArray "\<lambda>x y. y = x" d] loadLine_array
  by (auto simp: foldl_Add list_all_iff array_line_def)

lemma load_slls:
  "list_all (\<lambda>s. sll_reachable s \<and> is_word (sll_name s) \<and> list_all is_word (sll_head s) \<and> length (sll_head s) < 2 ^ 61) xs \<Longrightarrow>
   \<exists>ys. loadLines d (map sll_line xs) = Some (d\<lparr>SinglyLinkedLists := SinglyLinkedLists d @ ys\<rparr>) \<and>
        list_all2 (\<lambda>x y. y = x) xs ys"
  using loadLines_map [of xs sll_line AddSLL "\<lambda>x y. y = x" d] loadLine_sll [OF sll_reachable_inv]
  by (auto simp: foldl_Add list_all_iff sll_line_def)

lemma load_dlls:
  "list_all (\<lambda>l. is_word (dll_name l) \<and>
     (case PrintForward l of None \<Rightarrow> False | Some vs \<Rightarrow> list_all is_word vs \<and> length vs < 2 ^ 61)) xs \<Longrightarrow>
   \<exists>ys. loadLines d (map dll_line xs) = Some (d\<lparr>DoublyLinkedLists := DoublyLinkedLists d @ ys\<rparr>) \<and>
        list_all2 (\<lambda>x y. dll_reachable y \<and> PrintForward y = PrintForward x \<and> dll_name y = dll_name x) xs ys"
proof -
  assume h: "list_all (\<lambda>l. is_word (dll_name l) \<and>
     (case PrintForward l of None \<Rightarrow> False | Some vs \<Rightarrow> list_all is_word vs \<and> length vs < 2 ^ 61)) xs"
  have "\<exists>y. loadLine d' (dll_line x) = Some (AddDLL d' y) \<and>
            dll_reachable y \<and> PrintForward y = PrintForward x \<and> dll_name y = dll_name x" if x: "x \<in> set xs" for x d'
  proof -
    obtain vs where vs: "PrintForward x = Some vs" "is_word (dll_name x)" "list_all is_word vs" "length vs < 2 ^ 61"
      using h x by (auto simp: list_all_iff split: option.splits)
    then show ?thesis using loadLine_dll [OF vs(2-4), of d'] by (auto simp: dll_line_def)
  qed
  then show ?thesis using loadLines_map [of xs dll_line AddDLL _ d] by (simp add: foldl_Add)
qed

lemma load_stacks:
  "list_all (\<lambda>s. stack_reachable s \<and> is_word (stack_name s) \<and> list_all is_word (stack_top s) \<and>
                 length (stack_top s) < 2 ^ 61) xs \<Longrightarrow>
   \<exists>ys. loadLines d (map stack_line xs) = Some (d\<lparr>Stacks := Stacks d @ ys\<rparr>) \<and>
        list_all2 (\<lambda>x y. y = x\<lparr>stack_top := rev (stack_top x)\<rparr>) xs ys"
  using loadLines_map [of xs stack_line AddStack "\<lambda>x y. y = x\<lparr>stack_top := rev (stack_top x)\<rparr>" d]
    loadLine_stack [OF stack_reachable_inv]
  by (auto simp: foldl_Add list_all_iff stack_line_def)

lemma load_queues:
  "list_all (\<lambda>q. queue_reachable q \<and> is_word (queue_name q) \<and> list_all is_word (front q) \<and> length (front q) < 2 ^ 61) xs \<Longrightarrow>
   \<exists>ys. loadLines d (map queue_line xs) = Some (d\<lparr>Queues := Queues d @ ys\<rparr>) \<and> list_all2 (\<lambda>x y. y = x) xs ys"
  using loadLines_map [of xs queue_line AddQueue "\<lambda>x y. y = x" d] loadLine_queue [OF queue_reachable_inv]
  by (auto simp: foldl_Add list_all_iff queue_line_def)

lemma load_trees:
  "list_all (\<lambda>t. tree_reachable t \<and> is_word (tree_name t) \<and> list_all (\<lambda>v. - (2 ^ 63) \<le> v \<and> v < 2 ^ 63) (SaveTree t) \<and>
                 length (SaveTree t) < 2 ^ 61) xs \<Longrightarrow>
   \<exists>ys. loadLines d (map tree_line xs) = Some (d\<lparr>Trees := Trees d @ ys\<rparr>) \<and>
        list_all2 (\<lambda>x y. tree_reachable y \<and> SaveTree y = SaveTree x \<and> tree_name y = tree_name x) xs ys"
  using loadLines_map [of xs tree_line AddTree "\<lambda>x y. tree_reachable y \<and> SaveTree y = SaveTree x \<and> tree_name y = tree_name x" d]
    loadLine_tree
  by (auto simp: foldl_Add list_all_iff tree_line_def)

lemma load_tables:
  "list_all (\<lambda>h. ht_reachable h \<and> is_word (ht_name h) \<and> list_all (\<lambda>(k, v). is_word k \<and> is_word v) (entry_pairs h) \<and>
                 ht_size h < 2 ^ 61) xs \<Longrightarrow>
   \<exists>ys. loadLines d (map hash_line xs) = Some (d\<lparr>HashTables := HashTables d @ ys\<rparr>) \<and>
        list_all2 (\<lambda>x y. ht_reachable y \<and> ht_abs y = ht_abs x \<and> ht_name y = ht_name x) xs ys"
  using loadLines_map [of xs hash_line AddHashTable "\<lambda>x y. ht_reachable y \<and> ht_abs y = ht_abs x \<and> ht_name y = ht_name x" d]
    loadLine_hash [OF conjunct1 [OF ht_reachable_inv]]
  by (auto simp: foldl_Add list_all_iff hash_line_def)

lemma list_all2_same: "list_all2 (\<lambda>x y. y = x) xs ys \<Longrightarrow> ys = xs"
  using list_all2_map_eq [of "\<lambda>x y. y = x" xs ys id id] by simp

lemma load_text_lines:
  assumes ok: "db_ok d" and w: "db_words d"
  shows "\<exists>as ss ls sts qs ts hs. loadLines (Database_Cleanup d0) (text_lines d) =
     Some (Database_Cleanup d0\<lparr>Arrays := as, SinglyLinkedLists := ss, DoublyLinkedLists := ls, Stacks := sts,
                               Queues := qs, Trees := ts, HashTables := hs\<rparr>) \<and>
     list_all2 (\<lambda>x y. y = x) (Arrays d) as \<and> list_all2 (\<lambda>x y. y = x) (SinglyLinkedLists d) ss \<and>
     list_all2 (\<lambda>x y. dll_reachable y \<and> PrintForward y = PrintForward x \<and> dll_name y = dll_name x) (DoublyLinkedLists d) ls \<and>
     list_all2 (\<lambda>x y. y = x\<lparr>stack_top := rev (stack_top x)\<rparr>) (Stacks d) sts \<and> list_all2 (\<lambda>x y. y = x) (Queues d) qs \<and>
     list_all2 (\<lambda>x y. tree_reachable y \<and> SaveTree y = SaveTree x \<and> tree_name y = tree_name x) (Trees d) ts \<and>
     list_all2 (\<lambda>x y. ht_reachable y \<and> ht_abs y = ht_abs x \<and> ht_name y = ht_name x) (HashTables d) hs"
proof -
  let ?d0 = "Database_Cleanup d0"
  have c: "Arrays ?d0 = []" "SinglyLinkedLists ?d0 = []" "DoublyLinkedLists ?d0 = []" "Stacks ?d0 = []"
    "Queues ?d0 = []" "Trees ?d0 = []" "HashTables ?d0 = []" by (simp_all add: Database_Cleanup_def)
  obtain as where A: "loadLines ?d0 (map array_line (Arrays d)) = Some (?d0\<lparr>Arrays := as\<rparr>)"
      "list_all2 (\<lambda>x y. y = x) (Arrays d) as"
    using load_arrays [of "Arrays d" ?d0] w c by (auto simp: db_words_def)
  obtain ss where S: "loadLines (?d0\<lparr>Arrays := as\<rparr>) (map sll_line (SinglyLinkedLists d)) =
      Some (?d0\<lparr>Arrays := as, SinglyLinkedLists := ss\<rparr>)" "list_all2 (\<lambda>x y. y = x) (SinglyLinkedLists d) ss"
    using load_slls [of "SinglyLinkedLists d" "?d0\<lparr>Arrays := as\<rparr>"] ok w c
    by (auto simp: db_words_def db_ok_def list_all_iff)
  obtain ls where L: "loadLines (?d0\<lparr>Arrays := as, SinglyLinkedLists := ss\<rparr>) (map dll_line (DoublyLinkedLists d)) =
      Some (?d0\<lparr>Arrays := as, SinglyLinkedLists := ss, DoublyLinkedLists := ls\<rparr>)"
      "list_all2 (\<lambda>x y. dll_reachable y \<and> PrintForward y = PrintForward x \<and> dll_name y = dll_name x) (DoublyLinkedLists d) ls"
    using load_dlls [of "DoublyLinkedLists d" "?d0\<lparr>Arrays := as, SinglyLinkedLists := ss\<rparr>"] w c
    by (auto simp: db_words_def)
  let ?d3 = "?d0\<lparr>Arrays := as, SinglyLinkedLists := ss, DoublyLinkedLists := ls\<rparr>"
  obtain sts where ST: "loadLines ?d3 (map stack_line (Stacks d)) = Some (?d3\<lparr>Stacks := sts\<rparr>)"
      "list_all2 (\<lambda>x y. y = x\<lparr>stack_top := rev (stack_top x)\<rparr>) (Stacks d) sts"
    using load_stacks [of "Stacks d" ?d3] ok w c by (auto simp: db_words_def db_ok_def list_all_iff)
  obtain qs where Q: "loadLines (?d3\<lparr>Stacks := sts\<rparr>) (map queue_line (Queues d)) = Some (?d3\<lparr>Stacks := sts, Queues := qs\<rparr>)"
      "list_all2 (\<lambda>x y. y = x) (Queues d) qs"
    using load_queues [of "Queues d" "?d3\<lparr>Stacks := sts\<rparr>"] ok w c by (auto simp: db_words_def db_ok_def list_all_iff)
  let ?d5 = "?d3\<lparr>Stacks := sts, Queues := qs\<rparr>"
  obtain ts where T: "loadLines ?d5 (map tree_line (Trees d)) = Some (?d5\<lparr>Trees := ts\<rparr>)"
      "list_all2 (\<lambda>x y. tree_reachable y \<and> SaveTree y = SaveTree x \<and> tree_name y = tree_name x) (Trees d) ts"
    using load_trees [of "Trees d" ?d5] ok w c by (auto simp: db_words_def db_ok_def list_all_iff)
  obtain hs where H: "loadLines (?d5\<lparr>Trees := ts\<rparr>) (map hash_line (HashTables d)) = Some (?d5\<lparr>Trees := ts, HashTables := hs\<rparr>)"
      "list_all2 (\<lambda>x y. ht_reachable y \<and> ht_abs y = ht_abs x \<and> ht_name y = ht_name x) (HashTables d) hs"
    using load_tables [of "HashTables d" "?d5\<lparr>Trees := ts\<rparr>"] ok w c by (auto simp: db_words_def db_ok_def list_all_iff)
  have "loadLines ?d0 (text_lines d) = Some (?d5\<lparr>Trees := ts, HashTables := hs\<rparr>)"
    by (simp only: text_lines_def loadLines_append A(1) S(1) L(1) ST(1) Q(1) T(1) H(1) Option.bind.simps)
  with A(2) S(2) L(2) ST(2) Q(2) T(2) H(2) show ?thesis by fastforce
qed

lemma load_saved:
  assumes "db_ok d" "db_words d"
  shows "LoadDatabaseFromFile d0 (SaveDatabaseToFile d) = map_option Inr (loadLines (Database_Cleanup d0) (text_lines d))"
  using save_text_lines [OF assms(1)] text_lines_scan [OF assms(2)] by (simp add: LoadDatabaseFromFile_def)

lemma db_ok_loaded:
  assumes "db_ok d"
    and "list_all2 (\<lambda>x y. y = x) (SinglyLinkedLists d) ss"
    and "list_all2 (\<lambda>x y. dll_reachable y \<and> PrintForward y = PrintForward x \<and> dll_name y = dll_name x) (DoublyLinkedLists d) ls"
    and "list_all2 (\<lambda>x y. y = x\<lparr>stack_top := rev (stack_top x)\<rparr>) (Stacks d) sts"
    and "list_all2 (\<lambda>x y. y = x) (Queues d) qs"
    and "list_all2 (\<lambda>x y. tree_reachable y \<and> SaveTree y = SaveTree x \<and> tree_name y = tree_name x) (Trees d) ts"
    and "list_all2 (\<lambda>x y. ht_reachable y \<and> ht_abs y = ht_abs x \<and> ht_name y = ht_name x) (HashTables d) hs"
  shows "db_ok (d0\<lparr>Arrays := as, SinglyLinkedLists := ss, DoublyLinkedLists := ls, Stacks := sts,
                  Queues := qs, Trees := ts, HashTables := hs\<rparr>)"
proof -
  have "sts = map (\<lambda>x. x\<lparr>stack_top := rev (stack_top x)\<rparr>) (Stacks d)"
    using list_all2_map_eq [OF assms(4), of id] by simp
  moreover have "list_all stack_reachable (map (\<lambda>x. x\<lparr>stack_top := rev (stack_top x)\<rparr>) (Stacks d))"
    using assms(1) stack_reachable_rev stack_reachable_inv by (auto simp: db_ok_def list_all_iff)
  ultimately show ?thesis
    using assms list_all2_same [OF assms(2)] list_all2_same [OF assms(5)]
      list_all2_all [OF assms(3)] list_all2_all [OF assms(6)] list_all2_all [OF assms(7)]
    by (auto simp: db_ok_def)
qed

text \<open>
  C38. Saving a well-formed registry whose names and values are words (as every word of
  a command is) and loading the file back restores every array, singly linked list and
  queue exactly, every doubly linked list's values, every tree's keys and every hash
  table's key-value map, each under its name and in the same order, and the loaded
  registry is well formed again.
\<close>

theorem save_load_roundtrip:
  assumes "db_ok d" "db_words d"
  shows "\<exists>txt d'. SaveDatabaseToFile d = Some txt \<and> LoadDatabaseFromFile d0 (Some txt) = Some (Inr d') \<and> db_ok d' \<and>
     Arrays d' = Arrays d \<and> SinglyLinkedLists d' = SinglyLinkedLists d \<and> Queues d' = Queues d \<and>
     map (\<lambda>l. (dll_name l, PrintForward l)) (DoublyLinkedLists d') = map (\<lambda>l. (dll_name l, PrintForward l)) (DoublyLinkedLists d) \<and>
     map (\<lambda>t. (tree_name t, SaveTree t)) (Trees d') = map (\<lambda>t. (tree_name t, SaveTree t)) (Trees d) \<and>
     map (\<lambda>h. (ht_name h, ht_abs h)) (HashTables d') = map (\<lambda>h. (ht_name h, ht_abs h)) (HashTables d)"
proof -
  obtain as ss ls sts qs ts hs where l: "loadLines (Database_Cleanup d0) (text_lines d) =
     Some (Database_Cleanup d0\<lparr>Arrays := as, SinglyLinkedLists := ss, DoublyLinkedLists := ls, Stacks := sts,
                               Queues := qs, Trees := ts, HashTables := hs\<rparr>)"
    and r: "list_all2 (\<lambda>x y. y = x) (Arrays d) as" "list_all2 (\<lambda>x y. y = x) (SinglyLinkedLists d) ss"
     "list_all2 (\<lambda>x y. dll_reachable y \<and> PrintForward y = PrintForward x \<and> dll_name y = dll_name x) (DoublyLinkedLists d) ls"
     "list_all2 (\<lambda>x y. y = x\<lparr>stack_top := rev (stack_top x)\<rparr>) (Stacks d) sts" "list_all2 (\<lambda>x y. y = x) (Queues d) qs"
     "list_all2 (\<lambda>x y. tree_reachable y \<and> SaveTree y = SaveTree x \<and> tree_name y = tree_name x) (Trees d) ts"
     "list_all2 (\<lambda>x y. ht_reachable y \<and> ht_abs y = ht_abs x \<and> ht_name y = ht_name x) (HashTables d) hs"
    using load_text_lines [OF assms, of d0] by blast
  show ?thesis
    using save_text_lines [OF assms(1)] load_saved [OF assms, of d0] l db_ok_loaded [OF assms(1) r(2-7)]
      list_all2_same [OF r(1)] list_all2_same [OF r(2)] list_all2_same [OF r(5)]
      list_all2_map_eq [OF r(3), of "\<lambda>l. (dll_name l, PrintForward l)"]
      list_all2_map_eq [OF r(6), of "\<lambda>t. (tree_name t, SaveTree t)"]
      list_all2_map_eq [OF r(7), of "\<lambda>h. (ht_name h, ht_abs h)"]
    by auto
qed

text \<open>
  C39. The same round trip reverses every stack: \<open>SerializeStack\<close> writes the values
  from the bottom to the top, and \<open>loadStack\<close> pushes them from the last to the first,
  so the value that was at the bottom ends up on top.
\<close>

theorem stack_roundtrip_reversed:
  assumes "db_ok d" "db_words d"
  shows "\<exists>txt d'. SaveDatabaseToFile d = Some txt \<and> LoadDatabaseFromFile d0 (Some txt) = Some (Inr d') \<and>
     Stacks d' = map (\<lambda>st. st\<lparr>stack_top := rev (stack_top st)\<rparr>) (Stacks d)"
proof -
  obtain as ss ls sts qs ts hs where l: "loadLines (Database_Cleanup d0) (text_lines d) =
     Some (Database_Cleanup d0\<lparr>Arrays := as, SinglyLinkedLists := ss, DoublyLinkedLists := ls, Stacks := sts,
                               Queues := qs, Trees := ts, HashTables := hs\<rparr>)"
    and r: "list_all2 (\<lambda>x y. y = x\<lparr>stack_top := rev (stack_top x)\<rparr>) (Stacks d) sts"
    using load_text_lines [OF assms, of d0] by blast
  show ?thesis
    using save_text_lines [OF assms(1)] load_saved [OF assms, of d0] l list_all2_map_eq [OF r, of id] by auto
qed

lemma example_file_db:
  "db_ok (AddArray (AddStack NewDatabase (Stack_Push (Stack_Push (NewStack ''s'') ''a'') ''b'')) (NewArray ''m'')) \<and>
   db_words (AddArray (AddStack NewDatabase (Stack_Push (Stack_Push (NewStack ''s'') ''a'') ''b'')) (NewArray ''m''))"
proof -
  have "stack_reachable (Stack_Push (Stack_Push (NewStack ''s'') ''a'') ''b'')"
    by (intro stack_reachable.push stack_reachable.new)
  then show ?thesis
    by (simp add: db_ok_def db_words_def AddArray_def AddStack_def NewDatabase_def NewArray_def NewStack_def
        Stack_Push_def is_word_eval)
qed

theorem save_load_roundtrip_witness:
  "\<exists>txt d'. SaveDatabaseToFile (AddArray (AddStack NewDatabase (Stack_Push (Stack_Push (NewStack ''s'') ''a'') ''b'')) (NewArray ''m'')) = Some txt \<and>
     LoadDatabaseFromFile NewDatabase (Some txt) = Some (Inr d') \<and> db_ok d' \<and> Arrays d' = [NewArray ''m'']"
  using save_load_roundtrip [OF conjunct1 [OF example_file_db] conjunct2 [OF example_file_db], of NewDatabase]
  by (auto simp: AddArray_def AddStack_def NewDatabase_def)

theorem stack_roundtrip_reversed_witness:
  "\<exists>txt d'. SaveDatabaseToFile (AddArray (AddStack NewDatabase (Stack_Push (Stack_Push (NewStack ''s'') ''a'') ''b'')) (NewArray ''m'')) = Some txt \<and>
     LoadDatabaseFromFile NewDatabase (Some txt) = Some (Inr d') \<and>
     map stack_top (Stacks d') = [[''a'', ''b'']] \<and>
     map stack_top (Stacks (AddArray (AddStack NewDatabase (Stack_Push (Stack_Push (NewStack ''s'') ''a'') ''b'')) (NewArray ''m''))) = [[''b'', ''a'']]"
  using stack_roundtrip_reversed [OF conjunct1 [OF example_file_db] conjunct2 [OF example_file_db], of NewDatabase]
  by (auto simp: AddArray_def AddStack_def NewDatabase_def NewStack_def Stack_Push_def)

lemma go_int_of_wrap: "2 ^ 63 \<le> x \<Longrightarrow> x < 2 ^ 64 \<Longrightarrow> go_int_of x = x - 2 ^ 64"
proof -
  assume a: "2 ^ 63 \<le> x" "x < 2 ^ 64"
  have e: "x + 2 ^ 63 = 1 * 2 ^ 64 + (x + 2 ^ 63 - 2 ^ 64)" by simp
  have "(x + 2 ^ 63) mod 2 ^ 64 = x + 2 ^ 63 - 2 ^ 64"
  proof (subst e, subst mod_mult_self3)
    show "(x + 2 ^ 63 - 2 ^ 64) mod 2 ^ 64 = x + 2 ^ 63 - 2 ^ 64" using a by (intro mod_pos_pos_trivial) simp_all
  qed
  then show ?thesis by (simp only: go_int_of_def int_word_sint) simp
qed

lemma load_pairs_short: "length parts < 3 + n * 2 \<Longrightarrow> i < n \<Longrightarrow> load_pairs t parts i n = None"
proof (induction t parts i n rule: load_pairs.induct)
  case (1 t parts i n)
  then show ?case by (subst load_pairs.simps) auto
qed

text \<open>
  C40. A line of a file that declares a negative size for a stack, a size that makes
  \<open>3+size\<close> wrap around for an array or a singly linked list, or a size that makes
  \<open>size*2\<close> wrap for a hash table passes the loader's length guard (or reaches \<open>make\<close>)
  and crashes the program instead of being skipped like other malformed lines.
\<close>

theorem loadLine_malformed_panics:
  assumes "fields line = tag # name # s # items" "atoi s = Some sz" "length items < 2 ^ 61"
    and "tag = ''STACK'' \<and> sz < 0 \<or> tag \<in> {''ARRAY'', ''SLL''} \<and> 2 ^ 63 - 3 \<le> sz \<or> tag = ''HASH'' \<and> 2 ^ 62 \<le> sz"
  shows "loadLine d line = None"
proof -
  have r: "- (2 ^ 63) \<le> sz" "sz < 2 ^ 63" using atoi_range [OF assms(2)] by simp_all
  have len: "int (length items) < 2 ^ 61" using assms(3) by (metis of_nat_less_iff of_nat_numeral of_nat_power)
  consider "tag = ''STACK''" "sz < 0" | "tag \<in> {''ARRAY'', ''SLL''}" "2 ^ 63 - 3 \<le> sz" | "tag = ''HASH''" "2 ^ 62 \<le> sz"
    using assms(4) by blast
  then show ?thesis
  proof cases
    case 1
    then have "go_int_of (3 + sz) = 3 + sz" using r by (simp add: go_int_of_small)
    with 1 assms(1,2) show ?thesis by (simp add: loadLine_def loadStack_def)
  next
    case 2
    have g: "go_int_of (3 + sz) = 3 + sz - 2 ^ 64" using 2 r by (simp add: go_int_of_wrap)
    have "length (tag # name # s # items) < 3 + nat sz" using 2 len by simp
    note short = load_items_short [OF this, of 0]
    from 2 show ?thesis
      using assms(1,2) g r short [where f = "\<lambda>arr v. Some (Array_PushBack arr v)"]
        short [where f = "\<lambda>s v. Some (SLL_PushBack s v)"]
      by (auto simp: loadLine_def loadArray_def loadSLL_def)
  next
    case 3
    have "go_int_of (sz * 2) = sz * 2 - 2 ^ 64" using 3 r by (simp add: go_int_of_wrap)
    then have g: "go_int_of (3 + go_int_of (sz * 2)) = 3 + sz * 2 - 2 ^ 64" using 3 r by (simp add: go_int_of_small)
    have "length (tag # name # s # items) < 3 + nat sz * 2" using 3 len by simp
    note short = load_pairs_short [OF this, of 0]
    from 3 show ?thesis using assms(1,2) g r short by (simp add: loadLine_def loadHashTable_def)
  qed
qed

theorem loadLine_malformed_panics_witness:
  "LoadDatabaseFromFile NewDatabase (Some (''STACK s -1'' @ [CHR 0x0A])) = None \<and>
   loadLine NewDatabase ''HASH h 4611686018427387904 k v'' = None"
proof
  have "loadLine (Database_Cleanup NewDatabase) ''STACK s -1'' = None"
    using loadLine_malformed_panics [of "''STACK s -1''" "''STACK''" "''s''" "''-1''" "[]" "-1"]
    by (simp add: fields_eval atoi_eval)
  then show "LoadDatabaseFromFile NewDatabase (Some (''STACK s -1'' @ [CHR 0x0A])) = None"
    by (simp add: LoadDatabaseFromFile_def scanLines_def dropCR_def)
  show "loadLine NewDatabase ''HASH h 4611686018427387904 k v'' = None"
    using loadLine_malformed_panics [of "''HASH h 4611686018427387904 k v''" "''HASH''" "''h''"
        "''4611686018427387904''" "[''k'', ''v'']" 4611686018427387904]
    by (simp add: fields_eval atoi_eval)
qed

end
