(* ===== verification/Binary_Serializer.thy ===== *)
theory Binary_Serializer
  imports Database Go_Strings
begin

text \<open>
  The \<open>BINARY\<close> branches of the \<open>Serialize*\<close> methods of \<^verbatim>\<open>src/serializer.go\<close> and
  the helpers they use. A byte is an \<open>8 word\<close> and the data written to the
  \<open>io.Writer\<close> is the list of bytes; a reader is the list of bytes not yet read, and a
  read returns the value and the rest or Go's \<open>io.EOF\<close>/\<open>io.ErrUnexpectedEOF\<close>.
  \<open>encoding/binary\<close> writes a \<open>uint32\<close> or \<open>int32\<close> as four little-endian bytes
  (\<open>putUint32\<close>, \<open>uint32_of\<close>); \<open>writeIntBinary\<close> converts the \<open>int\<close> to \<open>int32\<close>
  first, and \<open>writeStringBinary\<close> the length to \<open>uint32\<close>, both keeping the low 32
  bits. Strings are byte strings: a \<open>char\<close> is one byte.
\<close>

unbundle bit_operations_syntax

type_synonym byte = "8 word"

definition putUint32 :: "32 word \<Rightarrow> byte list" where
  "putUint32 v = [ucast v, ucast (drop_bit 8 v), ucast (drop_bit 16 v), ucast (drop_bit 24 v)]"

definition uint32_of :: "byte list \<Rightarrow> 32 word" where
  "uint32_of b =
     ucast (b ! 0) OR push_bit 8 (ucast (b ! 1)) OR push_bit 16 (ucast (b ! 2)) OR push_bit 24 (ucast (b ! 3))"

definition read_error :: "byte list \<Rightarrow> go_error" where
  "read_error r = (if r = [] then ''EOF'' else ''unexpected EOF'')"

section \<open>Helpers\<close>

definition writeStringBinary :: "string \<Rightarrow> byte list" where
  "writeStringBinary str = putUint32 (word_of_nat (length str)) @ map (\<lambda>c. of_nat (of_char c)) str"

definition readStringBinary :: "byte list \<Rightarrow> go_error + string \<times> byte list" where
  "readStringBinary r =
     (if length r < 4 then Inl (read_error r)
      else let length = unat (uint32_of (take 4 r)); r' = drop 4 r
           in if List.length r' < length then Inl (read_error r')
              else Inr (map (\<lambda>b. char_of (unat b)) (take length r'), drop length r'))"

definition writeIntBinary :: "int \<Rightarrow> byte list" where
  "writeIntBinary value = putUint32 (word_of_int value)"

definition readIntBinary :: "byte list \<Rightarrow> go_error + int \<times> byte list" where
  "readIntBinary r =
     (if length r < 4 then Inl (read_error r) else Inr (sint (uint32_of (take 4 r)), drop 4 r))"

section \<open>The binary branches\<close>

definition SerializeArrayBinary :: "go_array \<Rightarrow> byte list" where
  "SerializeArrayBinary arr =
     writeStringBinary ''ARRAY'' @ writeStringBinary (array_name arr) @ writeIntBinary (int (length (data arr))) @
     concat (map writeStringBinary (data arr))"

definition SerializeSLLBinary :: "sll \<Rightarrow> byte list" where
  "SerializeSLLBinary s =
     writeStringBinary ''SLL'' @ writeStringBinary (sll_name s) @ writeIntBinary (int (length (sll_head s))) @
     concat (map writeStringBinary (sll_head s))"

definition SerializeDLLBinary :: "dll \<Rightarrow> byte list option" where
  "SerializeDLLBinary l =
     do { vs \<leftarrow> walkNext (dll_heap l) (dll_head l);
          Some (writeStringBinary ''DLL'' @ writeStringBinary (dll_name l) @ writeIntBinary (int (length vs)) @
                concat (map writeStringBinary vs)) }"

definition SerializeStackBinary :: "stack \<Rightarrow> byte list" where
  "SerializeStackBinary st =
     (let temp = stack_top st
      in writeStringBinary ''STACK'' @ writeStringBinary (stack_name st) @ writeIntBinary (int (length temp)) @
         concat (map writeStringBinary (rev temp)))"

definition SerializeQueueBinary :: "queue \<Rightarrow> byte list" where
  "SerializeQueueBinary q =
     writeStringBinary ''QUEUE'' @ writeStringBinary (queue_name q) @ writeIntBinary (int (queue_size q)) @
     concat (map writeStringBinary (front q))"

definition SerializeTreeBinary :: "avl_tree \<Rightarrow> byte list" where
  "SerializeTreeBinary t =
     (let vals = SaveTree t
      in writeStringBinary ''TREE'' @ writeStringBinary (tree_name t) @ writeIntBinary (int (length vals)) @
         concat (map writeIntBinary vals))"

definition SerializeHashTableBinary :: "hash_table \<Rightarrow> byte list option" where
  "SerializeHashTableBinary h =
     (if capacity h \<le> length (buckets h)
      then Some (writeStringBinary ''HASH'' @ writeStringBinary (ht_name h) @ writeIntBinary (int (ht_size h)) @
                 concat (map (\<lambda>e. writeStringBinary (Key e) @ writeStringBinary (Value e))
                   (concat (take (capacity h) (buckets h)))))
      else None)"

section \<open>Properties\<close>

lemma uint32_of_putUint32 [simp]: "uint32_of (putUint32 v) = v"
proof (rule bit_word_eqI)
  fix n :: nat assume "n < LENGTH(32)"
  then consider "n < 8" | "8 \<le> n" "n < 16" | "16 \<le> n" "n < 24" | "24 \<le> n" "n < 32" by fastforce
  then show "bit (uint32_of (putUint32 v)) n = bit v n"
    by cases (auto simp: putUint32_def uint32_of_def bit_simps)
qed

lemma length_putUint32 [simp]: "length (putUint32 v) = 4"
  by (simp add: putUint32_def)

lemma take_drop_putUint32 [simp]:
  "take 4 (putUint32 v @ rest) = putUint32 v" "drop 4 (putUint32 v @ rest) = rest"
  by simp_all

lemma byte_char [simp]: "char_of (unat (of_nat (of_char c) :: byte)) = c"
proof -
  have "(of_char c :: nat) < 2 ^ LENGTH(8)" using nat_of_char_less_256 [of c] by simp
  then show ?thesis by (simp add: unat_of_nat)
qed

text \<open>
  C16. Binary strings round trip: \<open>writeStringBinary\<close> writes a four-byte little-endian
  length and then the bytes, and \<open>readStringBinary\<close> applied to what it wrote, followed by
  any further bytes, returns the string and exactly those further bytes, for every string
  shorter than \<open>2^32\<close> bytes (the length is converted to \<open>uint32\<close>).
\<close>

theorem binary_string_roundtrip:
  "length s < 2 ^ 32 \<Longrightarrow>
   length (writeStringBinary s) = 4 + length s \<and> readStringBinary (writeStringBinary s @ rest) = Inr (s, rest)"
proof -
  assume "length s < 2 ^ 32"
  then have "unat (word_of_nat (length s) :: 32 word) = length s" by (simp add: unat_of_nat)
  then show ?thesis
    by (simp add: readStringBinary_def writeStringBinary_def comp_def map_idI)
qed

text \<open>
  C17. The binary encoding of an \<open>int\<close> keeps only its low 32 bits: reading it back
  gives the value reduced into the \<open>int32\<close> range, which is the value itself exactly
  when it lies in \<open>[-2^31, 2^31)\<close>. Tree keys and sizes are 64-bit Go \<open>int\<close>s, so any
  key outside that range comes back as a different number.
\<close>

theorem binary_int_truncates:
  "readIntBinary (writeIntBinary v @ rest) = Inr (sint (word_of_int v :: 32 word), rest) \<and>
   (sint (word_of_int v :: 32 word) = v \<longleftrightarrow> - (2 ^ 31) \<le> v \<and> v < 2 ^ 31)"
  by (simp add: readIntBinary_def writeIntBinary_def sint_sbintrunc' signed_take_bit_int_eq_self_iff)

theorem binary_string_roundtrip_witness:
  "length (writeStringBinary ''ab'') = 6 \<and>
   readStringBinary (writeStringBinary ''ab'' @ [7, 9]) = Inr (''ab'', [7, 9])"
  using binary_string_roundtrip [of "''ab''" "[7, 9]"] by simp

end
