(* ===== verification/Application.thy ===== *)
theory Application
  imports Command_Parser File_IO
begin

text \<open>
  The program as a whole: the commands the dispatcher hands on (\<open>PRINT\<close>, \<open>SAVE\<close>,
  \<open>LOAD\<close>, \<open>SAVE_TEXT\<close>, \<open>SAVE_BINARY\<close>, \<open>LOAD_TEXT\<close>, \<open>LOAD_BINARY\<close>, \<open>HELP\<close>)
  from \<^verbatim>\<open>src/command_parser.go\<close>, \<open>SerializeDatabase\<close> and \<open>DeserializeDatabase\<close>
  from \<^verbatim>\<open>src/serializer.go\<close>, the \<open>Print\<close> methods of the containers, and the front
  end of \<^verbatim>\<open>src/main.go\<close>. The state is the registry and the file system: a map from
  file names to their contents and the set of existing directories, which decides whether
  \<open>os.Create\<close> succeeds (\<open>os_Create\<close>). Printed text is a list
  of \<open>out_line\<close>s; the Russian prefixes of the \<open>Print\<close> methods and messages are ASCII
  tags, the data they print is exact.
\<close>

record app =
  app_db :: database
  files :: "string \<rightharpoonup> string"
  dirs :: "string set"

section \<open>The file system\<close>

text \<open>
  A path's directory is its prefix up to the last \<open>/\<close> (the empty string, the working
  directory, for a bare name); directories are kept with their trailing \<open>/\<close>. As the
  \<open>creat\<close> system call, \<open>os.Create\<close> succeeds when the directory exists and the path
  names no directory, and truncates or creates the file. Write and \<open>Flush\<close> errors of a
  created file (a full disk, an I/O error) are not modelled: a created file takes the
  whole text.
\<close>

definition dir_of :: "string \<Rightarrow> string" where
  "dir_of path = rev (dropWhile (\<lambda>c. c \<noteq> CHR ''/'') (rev path))"

definition os_Create :: "string set \<Rightarrow> string \<Rightarrow> go_error + unit" where
  "os_Create ds path =
     (if path \<noteq> [] \<and> (last path = CHR ''/'' \<or> path @ ''/'' \<in> ds) then Inl (''open '' @ path @ '': is a directory'')
      else if path \<noteq> [] \<and> dir_of path \<in> ds then Inr ()
      else Inl (''open '' @ path @ '': no such file or directory''))"

text \<open>
  \<open>SaveDatabaseToFile\<close> of \<^verbatim>\<open>file_io.go\<close> as a whole: \<open>os.Create\<close>, the text
  written through the buffered writer, and the report it prints.
\<close>

definition SaveDatabaseFile ::
  "(string \<rightharpoonup> string) \<Rightarrow> string set \<Rightarrow> database \<Rightarrow> string \<Rightarrow> ((go_error + (string \<rightharpoonup> string)) \<times> out_line list) option" where
  "SaveDatabaseFile fs ds d filename =
     (case os_Create ds filename of
        Inl err \<Rightarrow> Some (Inl err, [])
      | Inr _ \<Rightarrow> map_option (\<lambda>txt. (Inr (fs(filename \<mapsto> txt)), [Message (''database saved to file: '' @ filename)]))
                   (SaveDatabaseToFile d))"

section \<open>Printing the containers\<close>

definition printArray :: "go_array \<Rightarrow> out_line list" where
  "printArray a = [Message (''array '' @ array_name a @ '': ['' @ join_with '', '' (data a) @ '']'')]"

definition printSLL :: "sll \<Rightarrow> out_line list" where
  "printSLL s = [Message (''singly linked list '' @ sll_name s @ '': '' @ join_with '' -> '' (sll_head s) @ '' -> NULL'')]"

definition printDLL :: "dll \<Rightarrow> out_line list option" where
  "printDLL l =
     map_option (\<lambda>vs. [Message (''doubly linked list '' @ dll_name l @ '' (forward): '' @ join_with '' <-> '' vs @ '' -> NULL'')])
       (PrintForward l)"

definition printStack :: "stack \<Rightarrow> out_line list" where
  "printStack st = [Message (''stack '' @ stack_name st @ '': ['' @ join_with '', '' (stack_top st) @ '']'')]"

definition printQueue :: "queue \<Rightarrow> out_line list" where
  "printQueue q = [Message (''queue '' @ queue_name q @ '': ['' @ join_with '', '' (front q) @ '']'')]"

fun printInOrderHelper :: "avl_node \<Rightarrow> string" where
  "printInOrderHelper NilNode = []"
| "printInOrderHelper (AVLNode d l r _) = printInOrderHelper l @ show_int d @ '' '' @ printInOrderHelper r"

definition PrintInOrder :: "avl_tree \<Rightarrow> out_line list" where
  "PrintInOrder t = [Message (''tree '' @ tree_name t @ '' in-order: '' @ printInOrderHelper (root t))]"

definition printHashTable :: "hash_table \<Rightarrow> out_line list option" where
  "printHashTable h =
     (if capacity h \<le> length (buckets h)
      then Some (Message (''hash table '' @ ht_name h @ '':'') #
                 map (\<lambda>i. Message (''  ['' @ show_int (int i) @ '']: '' @
                            (if buckets h ! i = [] then ''NULL''
                             else join_with '' -> '' (map (\<lambda>e. ''{'' @ Key e @ '': '' @ Value e @ ''}'') (buckets h ! i)))))
                   [0..<capacity h])
      else None)"

section \<open>The commands handed on by the dispatcher\<close>

type_synonym app_result = "(app \<times> out_line list) option"

definition handlePrint :: "app \<Rightarrow> string list \<Rightarrow> app_result" where
  "handlePrint a parts =
     (let d = app_db a; no = Some (a, [Println ''FALSE'']) in
      if length parts < 2 then no
      else let typeName = parts ! 0; name = parts ! 1 in
        if typeName = ''ARRAY'' then
          (case FindArray d name of None \<Rightarrow> no | Some i \<Rightarrow> Some (a, printArray (Arrays d ! i)))
        else if typeName = ''SLL'' then
          (case FindSLL d name of None \<Rightarrow> no | Some i \<Rightarrow> Some (a, printSLL (SinglyLinkedLists d ! i)))
        else if typeName = ''DLL'' then
          (case FindDLL d name of None \<Rightarrow> no
           | Some i \<Rightarrow> map_option (\<lambda>out. (a, out)) (printDLL (DoublyLinkedLists d ! i)))
        else if typeName = ''STACK'' then
          (case FindStack d name of None \<Rightarrow> no | Some i \<Rightarrow> Some (a, printStack (Stacks d ! i)))
        else if typeName = ''QUEUE'' then
          (case FindQueue d name of None \<Rightarrow> no | Some i \<Rightarrow> Some (a, printQueue (Queues d ! i)))
        else if typeName = ''TREE'' then
          (case FindTree d name of None \<Rightarrow> no | Some i \<Rightarrow> Some (a, PrintInOrder (Trees d ! i)))
        else if typeName = ''HASH'' then
          (case FindHashTable d name of None \<Rightarrow> no
           | Some i \<Rightarrow> map_option (\<lambda>out. (a, out)) (printHashTable (HashTables d ! i)))
        else no)"

text \<open>\<open>SAVE\<close> and \<open>LOAD\<close> use \<^verbatim>\<open>file_io.go\<close>; a file that does not exist fails to open.\<close>

definition handleSave :: "app \<Rightarrow> string list \<Rightarrow> app_result" where
  "handleSave a parts =
     (if length parts < 1 then Some (a, [Println ''FALSE''])
      else let filename = parts ! 0 in
        map_option (\<lambda>(r, out). case r of
                       Inl _ \<Rightarrow> (a, out @ [Println ''FALSE''])
                     | Inr fs' \<Rightarrow> (a\<lparr>files := fs'\<rparr>, out @ [Println ''TRUE'']))
          (SaveDatabaseFile (files a) (dirs a) (app_db a) filename))"

definition handleLoad :: "app \<Rightarrow> string list \<Rightarrow> app_result" where
  "handleLoad a parts =
     (if length parts < 1 then Some (a, [Println ''FALSE''])
      else let filename = parts ! 0 in
        (case LoadDatabaseFromFile (app_db a) (files a filename) of
           None \<Rightarrow> None
         | Some (Inl _) \<Rightarrow> Some (a, [Println ''FALSE''])
         | Some (Inr d') \<Rightarrow> Some (a\<lparr>app_db := d'\<rparr>,
                                  [Message (''database loaded from file: '' @ filename), Println ''TRUE''])))"

datatype SerializationFormat = TEXT | BINARY

text \<open>
  \<open>SerializeDatabase\<close> only prints the names of the instances and returns \<open>nil\<close>;
  \<open>DeserializeDatabase\<close> ignores the file, empties the registry and adds five empty
  instances named \<open>loaded_*\<close>.
\<close>

definition SerializeDatabase :: "database \<Rightarrow> string \<Rightarrow> SerializationFormat \<Rightarrow> out_line list" where
  "SerializeDatabase d filename format =
     (let fileType = (if format = BINARY then ''binary'' else ''text'')
      in Message (''serializing database in '' @ fileType @ '' format: '' @ filename) #
         map (\<lambda>a. Message (''  - array: '' @ array_name a)) (Arrays d) @
         map (\<lambda>s. Message (''  - singly linked list: '' @ sll_name s)) (SinglyLinkedLists d) @
         map (\<lambda>l. Message (''  - doubly linked list: '' @ dll_name l)) (DoublyLinkedLists d) @
         map (\<lambda>s. Message (''  - stack: '' @ stack_name s)) (Stacks d) @
         map (\<lambda>q. Message (''  - queue: '' @ queue_name q)) (Queues d) @
         map (\<lambda>t. Message (''  - tree: '' @ tree_name t)) (Trees d) @
         map (\<lambda>h. Message (''  - hash table: '' @ ht_name h)) (HashTables d) @
         [Message ''serialization finished''])"

definition DeserializeDatabase :: "database \<Rightarrow> string \<Rightarrow> SerializationFormat \<Rightarrow> database \<times> out_line list" where
  "DeserializeDatabase d filename format =
     (let d1 = Database_Cleanup d;
          d2 = AddArray d1 (NewArray ''loaded_array'');
          d3 = AddSLL d2 (NewSinglyLinkedList ''loaded_sll'');
          d4 = AddStack d3 (NewStack ''loaded_stack'');
          d5 = AddTree d4 (NewAVLTree ''loaded_tree'');
          d6 = AddHashTable d5 (NewHashTable ''loaded_hash'')
      in (d6, [Message (''deserializing database from '' @ filename @ '': '' @ filename),
               Message ''deserialization finished'']))"

definition handleSerialize :: "SerializationFormat \<Rightarrow> app \<Rightarrow> string list \<Rightarrow> app_result" where
  "handleSerialize format a parts =
     (if length parts < 1 then Some (a, [Println ''FALSE''])
      else Some (a, SerializeDatabase (app_db a) (parts ! 0) format @ [Println ''TRUE'']))"

definition handleDeserialize :: "SerializationFormat \<Rightarrow> app \<Rightarrow> string list \<Rightarrow> app_result" where
  "handleDeserialize format a parts =
     (if length parts < 1 then Some (a, [Println ''FALSE''])
      else let (d', out) = DeserializeDatabase (app_db a) (parts ! 0) format
           in Some (a\<lparr>app_db := d'\<rparr>, out @ [Println ''TRUE'']))"

definition handleHelp :: "app \<Rightarrow> app_result" where
  "handleHelp a = Some (a, [Message ''help text''])"

definition ProcessApp :: "app \<Rightarrow> string \<Rightarrow> app_result" where
  "ProcessApp a command =
     (case ProcessCommand (app_db a) command of
        Handled r \<Rightarrow> map_option (\<lambda>(d', out). (a\<lparr>app_db := d'\<rparr>, out)) r
      | External action args \<Rightarrow>
          if action = ''PRINT'' then handlePrint a args
          else if action = ''SAVE'' then handleSave a args
          else if action = ''LOAD'' then handleLoad a args
          else if action = ''SAVE_TEXT'' then handleSerialize TEXT a args
          else if action = ''SAVE_BINARY'' then handleSerialize BINARY a args
          else if action = ''LOAD_TEXT'' then handleDeserialize TEXT a args
          else if action = ''LOAD_BINARY'' then handleDeserialize BINARY a args
          else handleHelp a)"

section \<open>The front end\<close>

text \<open>
  \<open>RunInteractive\<close> reads lines until the input ends or a line is \<open>EXIT\<close> after
  trimming; each other line goes to \<open>ProcessCommand\<close>. \<open>RunCommandLine\<close> loads the
  file (a file that does not open leaves the registry as it is), runs one query and saves
  the registry back to the same file, returning Go's \<open>error\<close> when \<open>SaveDatabaseToFile\<close>
  fails; the lines \<open>LoadDatabaseFromFile\<close> and \<open>SaveDatabaseToFile\<close> print on success
  are part of its output.
\<close>

fun interactiveLoop :: "app \<Rightarrow> string list \<Rightarrow> app_result" where
  "interactiveLoop a [] = Some (a, [Message ''> ''])"
| "interactiveLoop a (line # lines) =
     (let command = trimSpace line in
      if command = ''EXIT'' then Some (a, [Message ''> ''])
      else do { (a', out) \<leftarrow> ProcessApp a command;
                (a'', out') \<leftarrow> interactiveLoop a' lines;
                Some (a'', Message ''> '' # out @ out') })"

definition RunInteractive :: "app \<Rightarrow> string list \<Rightarrow> app_result" where
  "RunInteractive a input =
     map_option (\<lambda>(a', out). (a', [Message ''banner'', Message ''type HELP for the list of commands''] @ out @
                                  [Message ''goodbye'']))
       (interactiveLoop a input)"

type_synonym cli_result = "(app \<times> out_line list \<times> (go_error + unit)) option"

definition RunCommandLine :: "app \<Rightarrow> string \<Rightarrow> string \<Rightarrow> cli_result" where
  "RunCommandLine a filename query =
     do { loaded \<leftarrow> LoadDatabaseFromFile (app_db a) (files a filename);
          let (a1, out1) = (case loaded of
                              Inl _ \<Rightarrow> (a, [Message (''created new file: '' @ filename)])
                            | Inr d \<Rightarrow> (a\<lparr>app_db := d\<rparr>, [Message (''database loaded from file: '' @ filename)]));
          (a2, out2) \<leftarrow> ProcessApp a1 query;
          (r, out3) \<leftarrow> SaveDatabaseFile (files a2) (dirs a2) (app_db a2) filename;
          Some (case r of
                  Inl _ \<Rightarrow> (a2, out1 @ out2 @ out3, Inl (''save error: '' @ filename))
                | Inr fs' \<Rightarrow> (a2\<lparr>files := fs'\<rparr>, out1 @ out2 @ out3 @ [Message (''changes saved to file: '' @ filename)],
                            Inr ())) }"

definition NewApplication :: "(string \<rightharpoonup> string) \<Rightarrow> string set \<Rightarrow> app" where
  "NewApplication fs ds = \<lparr>app_db = NewDatabase, files = fs, dirs = ds\<rparr>"

text \<open>The loop of \<open>main\<close> over \<open>os.Args[1:]\<close>: the last \<open>--file\<close> and \<open>--query\<close> win.\<close>

datatype cli = Usage | CommandLine string string

fun parseArgs :: "string list \<Rightarrow> string \<Rightarrow> string \<Rightarrow> cli" where
  "parseArgs [] filename query = (if filename \<noteq> [] \<and> query \<noteq> [] then CommandLine filename query else Usage)"
| "parseArgs (arg # rest) filename query =
     (if arg = ''--file'' then (case rest of [] \<Rightarrow> parseArgs [] filename query | f # rest' \<Rightarrow> parseArgs rest' f query)
      else if arg = ''--query'' then (case rest of [] \<Rightarrow> parseArgs [] filename query | q # rest' \<Rightarrow> parseArgs rest' filename q)
      else if arg = ''--help'' then Usage
      else parseArgs rest filename query)"

text \<open>
  \<open>main\<close> returns the exit status with the state and the output: 1 after printing the
  error of \<open>RunCommandLine\<close> (\<open>os.Exit(1)\<close>), 0 otherwise.
\<close>

definition main :: "(string \<rightharpoonup> string) \<Rightarrow> string set \<Rightarrow> string list \<Rightarrow> string list \<Rightarrow> (app \<times> out_line list \<times> nat) option" where
  "main fs ds args input =
     (let a = NewApplication fs ds in
      if args = [] then map_option (\<lambda>(a', out). (a', out, 0)) (RunInteractive a input)
      else case parseArgs args [] [] of
        Usage \<Rightarrow> Some (a, [Message ''usage''], 0)
      | CommandLine filename query \<Rightarrow>
          map_option (\<lambda>(a', out, r). case r of Inl err \<Rightarrow> (a', out @ [Println err], 1) | Inr _ \<Rightarrow> (a', out, 0))
            (RunCommandLine a filename query))"

text \<open>The registry \<open>DeserializeDatabase\<close> leaves behind.\<close>

abbreviation loaded_stub_db :: database where
  "loaded_stub_db \<equiv>
     AddHashTable (AddTree (AddStack (AddSLL (AddArray NewDatabase (NewArray ''loaded_array''))
       (NewSinglyLinkedList ''loaded_sll'')) (NewStack ''loaded_stack'')) (NewAVLTree ''loaded_tree''))
       (NewHashTable ''loaded_hash'')"

text \<open>The application states a session reaches from \<open>NewApplication\<close> command by command.\<close>

inductive app_reachable :: "app \<Rightarrow> bool" where
  new: "app_reachable (NewApplication fs ds)"
| step: "app_reachable a \<Longrightarrow> ProcessApp a command = Some (a', out) \<Longrightarrow> app_reachable a'"

section \<open>Properties\<close>

lemma load_items_inv:
  "load_items f s parts i n = Some s' \<Longrightarrow> P s \<Longrightarrow> (\<And>s v s'. P s \<Longrightarrow> f s v = Some s' \<Longrightarrow> P s') \<Longrightarrow> P s'"
proof (induction f s parts i n rule: load_items.induct)
  case (1 f s parts i n)
  then show ?case
    by (subst (asm) load_items.simps) (auto split: if_splits Option.bind_splits)
qed

lemma load_pairs_reachable:
  "load_pairs t parts i n = Some t' \<Longrightarrow> ht_reachable t \<Longrightarrow> ht_reachable t'"
proof (induction t parts i n rule: load_pairs.induct)
  case (1 t parts i n)
  then show ?case
    by (subst (asm) load_pairs.simps) (auto split: if_splits intro: ht_reachable.insert)
qed

lemma db_ok_Cleanup [simp]: "db_ok (Database_Cleanup d)"
  by (simp add: db_ok_def Database_Cleanup_def)

lemma load_items_reachable:
  "load_items (\<lambda>s v. Some (SLL_PushBack s v)) (NewSinglyLinkedList n) parts i k = Some s
   \<Longrightarrow> sll_reachable s"
  "load_items DLL_PushBack (NewDoublyLinkedList n) parts i k = Some l \<Longrightarrow> dll_reachable l"
  "load_items Queue_Push (NewQueue n) parts i k = Some q \<Longrightarrow> queue_reachable q"
  "load_items (\<lambda>t v. case atoi v of None \<Rightarrow> Some t | Some x \<Rightarrow> AVLTree_Insert t x) (NewAVLTree n) parts i k = Some t
   \<Longrightarrow> tree_reachable t"
  by (erule load_items_inv; auto intro: sll_reachable.intros(1,3) dll_reachable.new dll_reachable.push_back
      queue_reachable.new queue_reachable.push tree_reachable.new tree_reachable.insert split: option.splits)+

lemma loaded_reachable:
  "load_pairs (NewHashTable n) parts i k = Some h \<Longrightarrow> ht_reachable h"
  "stack_reachable (foldl Stack_Push (NewStack n) xs)"
  by (erule load_pairs_reachable, rule ht_reachable.new) (intro stack_reachable_foldl stack_reachable.new)

lemma loaders_ok:
  "db_ok d \<Longrightarrow> loadArray d parts = Some d' \<Longrightarrow> db_ok d'"
  "db_ok d \<Longrightarrow> loadSLL d parts = Some d' \<Longrightarrow> db_ok d'"
  "db_ok d \<Longrightarrow> loadDLL d parts = Some d' \<Longrightarrow> db_ok d'"
  "db_ok d \<Longrightarrow> loadStack d parts = Some d' \<Longrightarrow> db_ok d'"
  "db_ok d \<Longrightarrow> loadQueue d parts = Some d' \<Longrightarrow> db_ok d'"
  "db_ok d \<Longrightarrow> loadTree d parts = Some d' \<Longrightarrow> db_ok d'"
  "db_ok d \<Longrightarrow> loadHashTable d parts = Some d' \<Longrightarrow> db_ok d'"
  by (auto simp: loadArray_def loadSLL_def loadDLL_def loadStack_def loadQueue_def loadTree_def loadHashTable_def
      split: if_splits option.splits Option.bind_splits
      intro: load_items_reachable loaded_reachable)

lemma loadLine_ok: "db_ok d \<Longrightarrow> loadLine d line = Some d' \<Longrightarrow> db_ok d'"
  by (auto simp: loadLine_def Let_def split: if_splits intro: loaders_ok)

lemma loadLines_ok: "db_ok d \<Longrightarrow> loadLines d lines = Some d' \<Longrightarrow> db_ok d'"
  by (induction lines arbitrary: d) (auto split: Option.bind_splits dest: loadLine_ok)

lemma LoadDatabaseFromFile_ok: "LoadDatabaseFromFile d file = Some (Inr d') \<Longrightarrow> db_ok d'"
  by (auto simp: LoadDatabaseFromFile_def split: option.splits intro: loadLines_ok [OF db_ok_Cleanup])


lemma handlePrint_total: "db_ok (app_db a) \<Longrightarrow> \<exists>out. handlePrint a args = Some (a, out)"
proof -
  assume ok: "db_ok (app_db a)"
  have dll: "\<exists>out. printDLL (DoublyLinkedLists (app_db a) ! i) = Some out" if "FindDLL (app_db a) n = Some i" for n i
    using db_ok_find(2) [OF ok that] dll_reachable_repr dll_repr_print by (fastforce simp: printDLL_def)
  have ht: "\<exists>out. printHashTable (HashTables (app_db a) ! i) = Some out" if "FindHashTable (app_db a) n = Some i" for n i
    using db_ok_find(6) [OF ok that] ht_reachable_inv by (simp add: printHashTable_def ht_inv_def)
  show ?thesis
    using dll ht by (auto simp: handlePrint_def Let_def split: option.split)
qed

lemma SaveDatabaseFile_ok:
  "db_ok d \<Longrightarrow> \<exists>r out. SaveDatabaseFile fs ds d filename = Some (r, out) \<and>
     (case os_Create ds filename of
        Inr _ \<Rightarrow> r = Inr (fs(filename \<mapsto> the (SaveDatabaseToFile d))) \<and> SaveDatabaseToFile d \<noteq> None
      | Inl err \<Rightarrow> r = Inl err)"
  using save_text_lines [of d] by (simp add: SaveDatabaseFile_def split: sum.split)

lemma handleSave_total: "db_ok (app_db a) \<Longrightarrow> \<exists>a' out. handleSave a args = Some (a', out) \<and> app_db a' = app_db a"
proof -
  assume ok: "db_ok (app_db a)"
  obtain r out where "SaveDatabaseFile (files a) (dirs a) (app_db a) (args ! 0) = Some (r, out)"
    using SaveDatabaseFile_ok [OF ok] by blast
  then show ?thesis by (cases r) (auto simp: handleSave_def Let_def)
qed

text \<open>
  No command changes the directories, and a file changes only where \<open>os.Create\<close>
  succeeds (\<open>SAVE\<close>).
\<close>

lemma SaveDatabaseFile_files:
  "SaveDatabaseFile fs ds d filename = Some (Inr fs', out) \<Longrightarrow>
   os_Create ds filename = Inr () \<and> (\<forall>f. f \<noteq> filename \<longrightarrow> fs' f = fs f)"
  by (auto simp: SaveDatabaseFile_def split: sum.splits)

lemma handleSave_files:
  assumes "handleSave a args = Some (a', out)"
  shows "dirs a' = dirs a \<and> (os_Create (dirs a) f \<noteq> Inr () \<longrightarrow> files a' f = files a f)"
proof (cases "args = []")
  case True
  then show ?thesis using assms by (simp add: handleSave_def)
next
  case False
  obtain r o3 where so: "SaveDatabaseFile (files a) (dirs a) (app_db a) (args ! 0) = Some (r, o3)"
    using assms False by (cases "SaveDatabaseFile (files a) (dirs a) (app_db a) (args ! 0)")
      (auto simp: handleSave_def Let_def)
  have a': "a' = (case r of Inl _ \<Rightarrow> a | Inr fs' \<Rightarrow> a\<lparr>files := fs'\<rparr>)"
    using assms False so by (cases r) (auto simp: handleSave_def Let_def)
  show ?thesis
  proof (cases r)
    case (Inr fs')
    then show ?thesis using SaveDatabaseFile_files [of "files a" "dirs a" "app_db a" "args ! 0" fs' o3] so a'
      by (cases "f = args ! 0") auto
  qed (simp add: a')
qed

lemma handlers_keep_files:
  "handlePrint a args = Some (a', out) \<Longrightarrow> files a' = files a \<and> dirs a' = dirs a"
  "handleLoad a args = Some (a', out) \<Longrightarrow> files a' = files a \<and> dirs a' = dirs a"
  "handleSerialize fmt a args = Some (a', out) \<Longrightarrow> files a' = files a \<and> dirs a' = dirs a"
  "handleDeserialize fmt a args = Some (a', out) \<Longrightarrow> files a' = files a \<and> dirs a' = dirs a"
  "handleHelp a = Some (a', out) \<Longrightarrow> files a' = files a \<and> dirs a' = dirs a"
  by (auto simp: handlePrint_def handleLoad_def handleSerialize_def handleDeserialize_def handleHelp_def Let_def
      split: if_splits option.splits sum.splits prod.splits)

lemma ProcessApp_files:
  assumes "ProcessApp a command = Some (a', out)"
  shows "dirs a' = dirs a \<and> (os_Create (dirs a) f \<noteq> Inr () \<longrightarrow> files a' f = files a f)"
proof (cases "ProcessCommand (app_db a) command")
  case (Handled r)
  then show ?thesis using assms by (auto simp: ProcessApp_def)
next
  case (External action args)
  then show ?thesis
    using assms handleSave_files [of a args a' out f] handlers_keep_files(1,2) [of a args a' out]
      handlers_keep_files(3,4) [of _ a args a' out] handlers_keep_files(5) [of a a' out]
    by (auto simp: ProcessApp_def split: if_splits)
qed

lemma handleLoad_ok: "handleLoad a args = Some (a', out) \<Longrightarrow> db_ok (app_db a) \<Longrightarrow> db_ok (app_db a')"
  by (auto simp: handleLoad_def Let_def split: if_splits option.splits sum.splits dest: LoadDatabaseFromFile_ok)

lemma ProcessCommand_External_fields:
  "ProcessCommand d command = External action args \<Longrightarrow> Go_Strings.fields command = action # args"
  by (auto simp: ProcessCommand_def split: list.split_asm if_split_asm)

lemma db_ok_NewDatabase [simp]: "db_ok NewDatabase"
  by (simp add: db_ok_def NewDatabase_def)

lemma loaded_stub_db_ok: "db_ok loaded_stub_db"
  by (simp add: sll_reachable.new stack_reachable.new tree_reachable.new ht_reachable.new)

lemma Cleanup_NewDatabase: "Database_Cleanup d = NewDatabase"
  by (simp add: Database_Cleanup_def NewDatabase_def)

lemma ProcessCommand_external:
  "Go_Strings.fields command = action # args \<Longrightarrow>
   action \<in> {''PRINT'', ''SAVE'', ''LOAD'', ''SAVE_TEXT'', ''SAVE_BINARY'', ''LOAD_TEXT'', ''LOAD_BINARY'', ''HELP''} \<Longrightarrow>
   ProcessCommand d command = External action args"
  by (elim insertE emptyE) (simp_all add: ProcessCommand_def)

text \<open>
  C18. \<open>SAVE_TEXT f\<close> and \<open>SAVE_BINARY f\<close> write no file: they print the names of the
  instances and \<open>TRUE\<close> and change nothing. \<open>LOAD_TEXT f\<close> and \<open>LOAD_BINARY f\<close> never
  read \<open>f\<close>: whatever the file holds, and even when it does not exist, they replace the
  registry by five empty instances named \<open>loaded_*\<close> and print \<open>TRUE\<close>.
\<close>

theorem text_binary_commands_ignore_files:
  assumes "is_word f"
  shows "(\<forall>cmd \<in> {''SAVE_TEXT'', ''SAVE_BINARY''}.
            \<exists>out. ProcessApp a (unwords [cmd, f]) = Some (a, out @ [Println ''TRUE''])) \<and>
         (\<forall>cmd \<in> {''LOAD_TEXT'', ''LOAD_BINARY''}.
            \<exists>out. ProcessApp a (unwords [cmd, f]) = Some (a\<lparr>app_db := loaded_stub_db\<rparr>, out @ [Println ''TRUE'']))"
proof (intro conjI ballI)
  fix cmd assume c: "cmd \<in> {''SAVE_TEXT'', ''SAVE_BINARY''}"
  then have "Go_Strings.fields (unwords [cmd, f]) = [cmd, f]" using assms by (intro fields_unwords) (auto simp: is_word_eval)
  then have "ProcessCommand (app_db a) (unwords [cmd, f]) = External cmd [f]"
    using c by (intro ProcessCommand_external) auto
  then show "\<exists>out. ProcessApp a (unwords [cmd, f]) = Some (a, out @ [Println ''TRUE''])"
    using c by (auto simp: ProcessApp_def handleSerialize_def)
next
  fix cmd assume c: "cmd \<in> {''LOAD_TEXT'', ''LOAD_BINARY''}"
  then have "Go_Strings.fields (unwords [cmd, f]) = [cmd, f]" using assms by (intro fields_unwords) (auto simp: is_word_eval)
  then have "ProcessCommand (app_db a) (unwords [cmd, f]) = External cmd [f]"
    using c by (intro ProcessCommand_external) auto
  then show "\<exists>out. ProcessApp a (unwords [cmd, f]) = Some (a\<lparr>app_db := loaded_stub_db\<rparr>, out @ [Println ''TRUE''])"
    using c by (auto simp: ProcessApp_def handleDeserialize_def DeserializeDatabase_def Cleanup_NewDatabase)
qed

theorem text_binary_commands_ignore_files_witness:
  "(\<exists>out. ProcessApp \<lparr>app_db = NewDatabase, files = Map.empty, dirs = {}\<rparr> (unwords [''LOAD_TEXT'', ''f'']) =
           Some (\<lparr>app_db = loaded_stub_db, files = Map.empty, dirs = {}\<rparr>, out @ [Println ''TRUE''])) \<and>
   (\<exists>out. ProcessApp \<lparr>app_db = NewDatabase, files = [''f'' \<mapsto> ''garbage''], dirs = {}\<rparr> (unwords [''LOAD_TEXT'', ''f'']) =
           Some (\<lparr>app_db = loaded_stub_db, files = [''f'' \<mapsto> ''garbage''], dirs = {}\<rparr>, out @ [Println ''TRUE'']))"
proof -
  have w: "is_word ''f''" by (simp add: is_word_eval)
  show ?thesis
    using text_binary_commands_ignore_files [OF w, of "\<lparr>app_db = NewDatabase, files = Map.empty, dirs = {}\<rparr>"]
      text_binary_commands_ignore_files [OF w, of "\<lparr>app_db = NewDatabase, files = [''f'' \<mapsto> ''garbage''], dirs = {}\<rparr>"]
    by simp
qed

lemma ProcessApp_step_ok:
  assumes "db_ok (app_db a)"
  shows "case ProcessApp a command of
           None \<Rightarrow> take 1 (Go_Strings.fields command) = [''LOAD'']
         | Some (a', out) \<Rightarrow> db_ok (app_db a')"
proof (cases "ProcessCommand (app_db a) command")
  case (Handled r)
  then show ?thesis using process_ok [OF assms Handled] by (auto simp: ProcessApp_def ok_result_def)
next
  case (External action args)
  have f: "Go_Strings.fields command = action # args"
    using ProcessCommand_External_fields [OF External] .
  show ?thesis
  proof (cases "action = ''LOAD''")
    case True
    then show ?thesis
      using f handleLoad_ok [OF _ assms, of args] by (auto simp: ProcessApp_def External split: option.split)
  next
    case False
    have stub: "db_ok (app_db a')" if "handleDeserialize fmt a args = Some (a', out)" for fmt a' out
      using that assms loaded_stub_db_ok
      by (auto simp: handleDeserialize_def DeserializeDatabase_def Cleanup_NewDatabase split: if_splits)
    obtain o1 where o1: "handlePrint a args = Some (a, o1)" using handlePrint_total [OF assms] by blast
    obtain a2 o2 where o2: "handleSave a args = Some (a2, o2)" "app_db a2 = app_db a"
      using handleSave_total [OF assms] by blast
    have "\<exists>a' out. ProcessApp a command = Some (a', out) \<and> db_ok (app_db a')"
      using False o1 o2 stub assms
      by (simp add: ProcessApp_def External handleSerialize_def handleDeserialize_def handleHelp_def
          DeserializeDatabase_def Cleanup_NewDatabase sll_reachable.new stack_reachable.new
          tree_reachable.new ht_reachable.new)
    then show ?thesis by auto
  qed
qed

lemma interactiveLoop_exit:
  "list_all (\<lambda>l. trimSpace l \<noteq> ''EXIT'') xs \<Longrightarrow> trimSpace e = ''EXIT'' \<Longrightarrow>
   interactiveLoop a (xs @ e # ys) = interactiveLoop a xs"
  by (induction xs arbitrary: a) (simp_all add: Let_def)

text \<open>
  C14. On every state a session reaches, every registry instance satisfies its invariant
  (\<open>db_ok\<close>), and a command can panic there only when it is \<open>LOAD\<close> (of a malformed file):
  each step keeps the registry well formed, also \<open>LOAD\<close> of any file and the commands
  the dispatcher hands on.
\<close>

theorem app_reachable_sound:
  assumes "app_reachable a"
  shows "db_ok (app_db a) \<and> (ProcessApp a command = None \<longrightarrow> take 1 (Go_Strings.fields command) = [''LOAD''])"
proof -
  have ok: "db_ok (app_db a)"
    using assms
  proof (induction rule: app_reachable.induct)
    case (new fs)
    then show ?case by (simp add: NewApplication_def)
  next
    case (step a command a' out)
    then show ?case using ProcessApp_step_ok [OF step.IH, of command] by simp
  qed
  then show ?thesis using ProcessApp_step_ok [OF ok, of command] by (auto split: option.splits)
qed

text \<open>
  C15. The interactive loop stops at the first line that is \<open>EXIT\<close> after trimming: the
  lines after it are never processed, and the session is the one of the input up to it.
\<close>

theorem RunInteractive_stops_at_EXIT:
  "list_all (\<lambda>l. trimSpace l \<noteq> ''EXIT'') xs \<Longrightarrow> trimSpace e = ''EXIT'' \<Longrightarrow>
   RunInteractive a (xs @ e # ys) = RunInteractive a xs"
  by (simp add: RunInteractive_def interactiveLoop_exit)

theorem app_reachable_sound_witness:
  "app_reachable (NewApplication [''f'' \<mapsto> ''STACK s -1'' @ [CHR 0x0A]] {''''}) \<and>
   db_ok (app_db (NewApplication [''f'' \<mapsto> ''STACK s -1'' @ [CHR 0x0A]] {''''})) \<and>
   ProcessApp (NewApplication [''f'' \<mapsto> ''STACK s -1'' @ [CHR 0x0A]] {''''}) ''LOAD f'' = None \<and>
   take 1 (Go_Strings.fields ''LOAD f'') = [''LOAD'']"
proof -
  let ?a = "NewApplication [''f'' \<mapsto> ''STACK s -1'' @ [CHR 0x0A]] {''''}"
  have r: "app_reachable ?a" by (rule app_reachable.new)
  have ext: "ProcessCommand (app_db ?a) ''LOAD f'' = External ''LOAD'' [''f'']"
    by (rule ProcessCommand_external) (simp_all add: fields_eval)
  have l: "loadLine NewDatabase ''STACK s -1'' = None"
    by (simp add: loadLine_def loadStack_def fields_eval atoi_eval go_int_of_small)
  have p: "ProcessApp ?a ''LOAD f'' = None"
    using ext l by (simp add: ProcessApp_def handleLoad_def NewApplication_def LoadDatabaseFromFile_def
        scanLines_def dropCR_def Cleanup_NewDatabase)
  show ?thesis using app_reachable_sound [OF r, of "''LOAD f''"] r p by blast
qed

theorem RunInteractive_stops_at_EXIT_witness:
  "list_all (\<lambda>l. trimSpace l \<noteq> ''EXIT'') [''HELP''] \<and> trimSpace '' EXIT '' = ''EXIT'' \<and>
   RunInteractive (NewApplication Map.empty {''''}) ([''HELP''] @ '' EXIT '' # [''LOAD f''])
     = RunInteractive (NewApplication Map.empty {''''}) [''HELP'']"
proof -
  have h1: "list_all (\<lambda>l. trimSpace l \<noteq> ''EXIT'') [''HELP'']" by (simp add: trimSpace_def is_space_def)
  have h2: "trimSpace '' EXIT '' = ''EXIT''" by (simp add: trimSpace_def is_space_def)
  show ?thesis using RunInteractive_stops_at_EXIT [OF h1 h2, of "NewApplication Map.empty {''''}" "[''LOAD f'']"] h1 h2
    by blast
qed

text \<open>
  C19. The command-line mode on a well-formed registry, when the file loads (or does not
  exist) and the query is not \<open>LOAD\<close>: \<open>RunCommandLine\<close> returns and leaves a
  well-formed registry. When \<open>os.Create\<close> can create the file, the file then holds
  exactly the text \<open>SaveDatabaseToFile\<close> writes for that registry and the last line
  printed reports the save; otherwise (e.g. a missing directory, as in
  \<^verbatim>\<open>main_test.go\<close>) it returns the save error and the file is left as it was.
\<close>

theorem RunCommandLine_saves_result:
  assumes "db_ok (app_db a)" "take 1 (Go_Strings.fields query) \<noteq> [''LOAD'']"
    and "LoadDatabaseFromFile (app_db a) (files a filename) \<noteq> None"
  shows "\<exists>a' out r. RunCommandLine a filename query = Some (a', out, r) \<and> db_ok (app_db a') \<and>
           (case os_Create (dirs a) filename of
              Inr _ \<Rightarrow> r = Inr () \<and> files a' filename = SaveDatabaseToFile (app_db a') \<and>
                      last out = Message (''changes saved to file: '' @ filename)
            | Inl _ \<Rightarrow> r = Inl (''save error: '' @ filename) \<and> files a' filename = files a filename)"
proof -
  obtain l where l: "LoadDatabaseFromFile (app_db a) (files a filename) = Some l" using assms(3) by blast
  define a1 where "a1 = (case l of Inl _ \<Rightarrow> a | Inr d \<Rightarrow> a\<lparr>app_db := d\<rparr>)"
  define o1 where "o1 = (case l of Inl _ \<Rightarrow> [Message (''created new file: '' @ filename)]
                         | Inr d \<Rightarrow> [Message (''database loaded from file: '' @ filename)])"
  have ok1: "db_ok (app_db a1)" and fs1: "files a1 = files a" "dirs a1 = dirs a"
    using assms(1) l LoadDatabaseFromFile_ok [of "app_db a" "files a filename"] by (auto simp: a1_def split: sum.split)
  obtain a2 o2 where a2: "ProcessApp a1 query = Some (a2, o2)" "db_ok (app_db a2)"
    using ProcessApp_step_ok [OF ok1, of query] assms(2) by (auto split: option.splits)
  have fs2: "dirs a2 = dirs a" "os_Create (dirs a) filename \<noteq> Inr () \<Longrightarrow> files a2 filename = files a filename"
    using ProcessApp_files [OF a2(1), of filename] fs1 by auto
  obtain r3 o3 where s: "SaveDatabaseFile (files a2) (dirs a2) (app_db a2) filename = Some (r3, o3)"
    "case os_Create (dirs a2) filename of
       Inr _ \<Rightarrow> r3 = Inr ((files a2)(filename \<mapsto> the (SaveDatabaseToFile (app_db a2)))) \<and> SaveDatabaseToFile (app_db a2) \<noteq> None
     | Inl err \<Rightarrow> r3 = Inl err"
    using SaveDatabaseFile_ok [OF a2(2)] by blast
  have run: "RunCommandLine a filename query =
    Some (case r3 of
            Inl _ \<Rightarrow> (a2, o1 @ o2 @ o3, Inl (''save error: '' @ filename))
          | Inr fs' \<Rightarrow> (a2\<lparr>files := fs'\<rparr>, o1 @ o2 @ o3 @ [Message (''changes saved to file: '' @ filename)], Inr ()))"
    using l a2(1) s(1) unfolding a1_def o1_def by (cases l; cases r3) (simp_all add: RunCommandLine_def)
  show ?thesis
    using run s(2) fs2 a2(2) by (auto split: sum.splits)
qed

theorem RunCommandLine_saves_result_witness:
  "(\<exists>a' out r. RunCommandLine (NewApplication Map.empty {''''}) ''db.txt'' ''CREATE HASH h'' = Some (a', out, r) \<and>
      db_ok (app_db a') \<and> r = Inr () \<and> files a' ''db.txt'' = SaveDatabaseToFile (app_db a') \<and>
      last out = Message (''changes saved to file: '' @ ''db.txt'')) \<and>
   (\<exists>a' out r. RunCommandLine (NewApplication Map.empty {''''}) ''/invalid/path/file.txt'' ''CREATE ARRAY test''
        = Some (a', out, r) \<and>
      db_ok (app_db a') \<and> r = Inl (''save error: /invalid/path/file.txt'') \<and> files a' ''/invalid/path/file.txt'' = None)"
proof -
  let ?a = "NewApplication Map.empty {''''}"
  have h1: "db_ok (app_db ?a)" by (simp add: NewApplication_def)
  have h3: "LoadDatabaseFromFile (app_db ?a) (files ?a f) \<noteq> None" for f
    by (simp add: NewApplication_def LoadDatabaseFromFile_def)
  have c1: "os_Create (dirs ?a) ''db.txt'' = Inr ()"
    by (simp add: os_Create_def dir_of_def NewApplication_def)
  have c2: "os_Create (dirs ?a) ''/invalid/path/file.txt'' = Inl ''open /invalid/path/file.txt: no such file or directory''"
    by (simp add: os_Create_def dir_of_def NewApplication_def)
  have q1: "take 1 (Go_Strings.fields ''CREATE HASH h'') \<noteq> [''LOAD'']" by (simp add: fields_eval)
  have q2: "take 1 (Go_Strings.fields ''CREATE ARRAY test'') \<noteq> [''LOAD'']" by (simp add: fields_eval)
  show ?thesis
    using RunCommandLine_saves_result [OF h1 q1 h3 [of "''db.txt''"]]
      RunCommandLine_saves_result [OF h1 q2 h3 [of "''/invalid/path/file.txt''"]] c1 c2
    by (simp add: NewApplication_def)
qed

end
