(* ===== verification/Spec2Isabelle.thy ===== *)
theory Spec2Isabelle
  imports AVL_Tree Hash_Table Stack Queue Array Singly_Linked_List Doubly_Linked_List Command_Parser File_IO
    Binary_Serializer Application
begin

text \<open>
  \<^bold>\<open>A verification development for the Go in-memory database of this repository.\<close>

  \<^bold>\<open>The program.\<close> Package \<open>dbmsgo\<close> under \<^verbatim>\<open>src/\<close> keeps named instances of seven
  containers in a registry (\<^verbatim>\<open>database.go\<close>): a string array, singly and doubly
  linked lists, a stack, a queue, an AVL tree of integers (\<^verbatim>\<open>avl_tree.go\<close>) and a
  chained hash table from strings to strings (\<^verbatim>\<open>hash_table.go\<close>). The dispatcher
  (\<^verbatim>\<open>command_parser.go\<close>) splits a command line into words, looks the instance up
  by name in the registry and calls its method through the pointer it gets back;
  \<^verbatim>\<open>file_io.go\<close> writes every instance as one text line with the \<open>TEXT\<close> branch of
  \<^verbatim>\<open>serializer.go\<close> and rebuilds instances from such lines by calling their methods;
  \<^verbatim>\<open>main.go\<close> reads command lines from the terminal, or loads a file, runs one
  query and saves the file back. The
  specification treats the AVL tree and the hash table as the core and every other part
  as a collaborator. Everything runs on one goroutine; there is no concurrency.

  \<^bold>\<open>Theories\<close> (each models one file; a Go function is a definition of the same name;
  a method whose name several types share is prefixed with its receiver type, e.g.
  \<open>AVLTree_Insert\<close>, \<open>HashTable_Insert\<close>, \<open>Stack_Push\<close>, \<open>SLL_PushFront\<close>,
  \<open>DLL_PushFront\<close>, \<open>Database_Cleanup\<close>).
  \<^item> \<open>Prelude\<close>: \<open>go_int\<close> (Go's 64-bit \<open>int\<close> as \<open>64 word\<close>), \<open>go_error\<close>,
    sorted-list insertion and deletion (\<open>ins_list\<close>, \<open>del_list\<close>), insertion before
    and after a target (\<open>ins_before\<close>, \<open>ins_after\<close>), multiset facts on bucket arrays;
    the collections \<open>sorted_ins_del\<close>, \<open>bucket_simps\<close>, \<open>container_simps\<close>.
  \<^item> \<open>AVL_Tree\<close>, \<open>Hash_Table\<close>: the core. A \<open>*AVLNode\<close> is the datatype
    \<open>avl_node\<close> (\<open>NilNode\<close> is nil); a chain of \<open>*HashEntry\<close> is the list of its
    entries; the hash loop wraps at 64 bits and Go's \<open>%\<close> is \<open>smod\<close>. Every function,
    including the rebalancing tails \<open>insertRebalance\<close>/\<open>deleteRebalance\<close> and the chain
    scans, is one definition; a nil dereference is \<open>None\<close>.
  \<^item> \<open>Stack\<close>, \<open>Queue\<close>, \<open>Array\<close>, \<open>Singly_Linked_List\<close>: node chains are lists;
    the cached \<open>tail\<close>/\<open>rear\<close> pointers are positions on the chain, so a stale pointer
    is representable and \<open>Queue_Push\<close>, \<open>SLL_DeleteBack\<close> return
    \<open>None\<close> where Go would dereference nil; \<open>Array_Insert\<close> keeps Go's
    \<open>append\<close>-then-\<open>copy\<close> (\<open>go_copy\<close>); a Go \<open>error\<close> is \<open>Inl\<close> of its message.
  \<^item> \<open>Doubly_Linked_List\<close>: an explicit store of nodes (\<open>node_heap\<close>, addresses
    allocated by a counter) with head and tail pointers; the pointer walks are
    \<open>partial_function (option)\<close>, the list segment predicate \<open>dls\<close> relates the store
    to a list of addresses.
  \<^item> \<open>Database\<close>: the registry as seven lists; \<open>Find*\<close> returns the position of the
    first instance of a name (\<open>findName\<close>), \<open>Add*\<close> appends; \<open>db_ok\<close> says every
    instance is reachable by its own methods; the \<open>reach_ok\<close> lemmas say that every
    method of a reachable instance returns (no panic) a reachable instance.
  \<^item> \<open>Go_Strings\<close>: the library functions the code calls on text, modelled from their
    documentation (\<open>strings.Fields\<close>, \<open>strings.TrimSpace\<close>, \<open>strings.Join\<close>,
    \<open>strconv.Atoi\<close>, decimal formatting,
    \<open>bufio.ScanLines\<close>), for ASCII byte strings.
  \<^item> \<open>Command_Parser\<close>: every handler of \<open>ProcessCommand\<close> with its early returns
    and printed lines (\<open>Println\<close> for protocol answers, \<open>Message\<close> for the fixed user
    messages); the updated instance is written back at the position \<open>Find*\<close> returned.
    \<open>db_reachable\<close> are the registries reached from \<open>NewDatabase\<close> by handled
    commands.
  \<^item> \<open>File_IO\<close>: \<open>SaveDatabaseToFile\<close> returns the text it writes,
    \<open>LoadDatabaseFromFile\<close> reads a file's text, with every loader and its guards
    computed in wrapping 64-bit arithmetic (\<open>go_int_of\<close>).
  \<^item> \<open>Binary_Serializer\<close>: the \<open>BINARY\<close> branches of \<^verbatim>\<open>serializer.go\<close> as byte
    lists (\<open>8 word\<close>), with \<open>encoding/binary\<close>'s little-endian \<open>uint32\<close>/\<open>int32\<close>
    (\<open>putUint32\<close>, \<open>uint32_of\<close>); a reader is the list of bytes not yet read.
  \<^item> \<open>Application\<close>: the commands the dispatcher hands on as \<open>External\<close>
    (\<open>PRINT\<close> with the containers' \<open>Print\<close> methods, \<open>SAVE\<close>, \<open>LOAD\<close>,
    \<open>SAVE_TEXT\<close>, \<open>SAVE_BINARY\<close>, \<open>LOAD_TEXT\<close>, \<open>LOAD_BINARY\<close> through
    \<open>SerializeDatabase\<close>/\<open>DeserializeDatabase\<close>, \<open>HELP\<close>), composed with
    \<open>ProcessCommand\<close> into \<open>ProcessApp\<close> over the record \<open>app\<close> of the registry and
    the file system (a map from file names to contents); \<open>RunInteractive\<close> over the
    list of input lines, \<open>RunCommandLine\<close>, \<open>main\<close>'s argument loop (\<open>parseArgs\<close>);
    \<open>app_reachable\<close> are the states a session reaches from \<open>NewApplication\<close>.

  \<^bold>\<open>What is proved\<close> (claims C1--C40, in the order of the manifest).
  \<^item> Core: reachable trees are balanced and sorted, and insert, remove, search and count
    act as the sorted key set (C1, C3, C4, C9, C13); reachable tables keep their
    invariant and refine a map (C2, C5--C8, C12); the bucket index is in range for
    wrapping hashes (C10); the two rebalancing case splits agree (C11). The scenarios of
    the specification are checked as lemmas (\<open>spec_tree_scenarios\<close>,
    \<open>spec_table_scenarios\<close>).
  \<^item> Application: on every state a session reaches every instance satisfies its
    invariant and only \<open>LOAD\<close> of a malformed file can panic (C14); the session stops at
    the first \<open>EXIT\<close> (C15); the command-line mode runs its query and writes the
    resulting registry back to the file when \<open>os.Create\<close> can create it, and otherwise
    returns the save error and leaves the file alone (C19, the case of
    \<^verbatim>\<open>main_test.go\<close>); \<open>SAVE_TEXT\<close>/\<open>LOAD_TEXT\<close> and their binary twins never
    touch the file (C18, contrary to \<open>HELP\<close>).
  \<^item> Binary encoding: strings read back as written, with the rest of the input (C16); an
    \<open>int\<close> keeps only 32 bits (C17, a bug for tree keys).
  \<^item> Containers: the stack, queue, array and both lists refine their list operations
    on reachable instances, with their cached pointers and counters correct, errors on
    every out-of-range index and empty container, the stack last in, first out, and the
    doubly linked list's forward and backward walks agreeing (C20--C30).
  \<^item> Dispatcher: no handled command panics on a reachable registry (C31); each of the 35
    commands on a named instance answers \<open>FALSE\<close> and changes nothing when no instance
    has the name (C32); inserting and then querying by
    command returns what was inserted (C33, C34); \<open>HGET\<close> cannot tell a missing key from
    the value \<open>FALSE\<close>, \<open>TDEL\<close> always answers \<open>TRUE\<close>, a duplicate \<open>CREATE\<close> is
    unreachable (C35--C37).
  \<^item> Persistence: saving and loading restores every instance (C38) except that every
    stack comes back reversed (C39, a bug); lines with sizes that wrap Go's \<open>int\<close> or a
    negative stack size crash the loader (C40).

  \<^bold>\<open>Modelling choices and bounds.\<close> No fuel is used: loops over chains and subtrees are
  structural recursion, the loaders' counted loops are \<open>function\<close>s with a measure, and
  the pointer walks of the doubly linked list are partial functions proved to return on
  every well-formed list. The hash threshold \<open>int(float64(capacity)*0.7)\<close> is
  \<open>7 * capacity div 10\<close>, equal on every reachable capacity \<open>10 * 2 ^ j\<close>. The
  round trip needs the stored strings to be words (non-empty, no white space: what
  \<open>strings.Fields\<close> yields for every command argument) and fewer than \<open>2 ^ 61\<close> items
  per container, so that no count in a line wraps. Strings are byte strings; UTF-8
  decoding and Unicode white space are not modelled.

  \<^bold>\<open>The file system.\<close> Files are a map from paths to contents with the set of existing
  directories; \<open>os.Open\<close> fails exactly for a missing file, \<open>os.Create\<close> when the path's
  directory does not exist or the path is a directory (as \<open>creat\<close>). \<open>main\<close> returns
  its exit status (1 after \<open>RunCommandLine\<close>'s error).

  \<^bold>\<open>Not modelled.\<close> Errors of the operating system beyond those: permissions, a
  full disk, so write and \<open>Flush\<close> errors of a created file (\<^verbatim>\<open>file_io.go:257\<close>), and
  the scanner's errors and 64 KiB line limit (\<^verbatim>\<open>file_io.go:300\<close>). Terminal text is a
  list of \<open>out_line\<close>s: the Russian wording of the messages is replaced by ASCII tags and
  \<open>HELP\<close>'s listing by one line, the data printed is exact. \<open>strings.Fields\<close>, \<open>strings.TrimSpace\<close> and \<open>strconv\<close> are modelled
  for ASCII text. The getters (\<open>GetName\<close>, \<open>GetData\<close>, \<open>GetRoot\<close>, ...) are record
  fields. Nothing else of \<^verbatim>\<open>src/\<close> is left out.
\<close>

end
